theory Spec2Isabelle
  imports Complex_Main "HOL-Library.Multiset"
begin

section \<open>Data model\<close>

text \<open>
  A repository is read through GitPython. What \<open>get_commit_history\<close> uses of a commit
  object is collected in \<open>git_commit\<close>: the two actors, the committed time with the
  offset git recorded, the raw message, the parents, and \<open>stats\<close>, which GitPython
  computes on access by running \<open>git diff --numstat\<close> against the first parent; the
  access either raises or yields the \<open>total\<close> dictionary and the per-file dictionary
  (of which the code takes the length only, so the model keeps its keys).

  An aware datetime is its wall-clock reading together with the UTC offset of its
  \<open>tzinfo\<close>; both are counts of microseconds, the wall-clock reading since
  1970-01-01 00:00:00 on the naive time line.
\<close>

type_synonym naive_datetime = int

record aware_datetime =
  wallclock :: naive_datetime
  utcoffset :: int

record actor =
  name :: string
  email :: string

record commit_stats =
  total :: "(string \<times> int) list"
  files :: "string list"

datatype py_error =
    KeyError
  | ValueError
  | TypeError
  | AttributeError
  | ZeroDivisionError
  | OverflowError
  | GitCommandError
  | RequestException

record git_commit =
  hexsha :: string
  author :: actor
  committer :: actor
  committed_datetime :: aware_datetime
  message :: string
  stats :: "py_error + commit_stats"
  parents :: "string list"

text \<open>
  The commit table is a pandas DataFrame with one row per commit and the twelve columns
  that \<open>get_commit_history\<close> writes. A row is a record of these columns. The
  \<open>datetime\<close> column holds timezone-naive instants.
\<close>

record commit_row =
  sha :: string
  author_name :: string
  author_email :: string
  committer_name :: string
  committer_email :: string
  datetime :: naive_datetime
  message :: string
  insertions :: int
  deletions :: int
  lines_changed :: int
  files_changed :: int
  parents :: int

text \<open>
  The numeric columns of a frame are either a numpy \<open>int64\<close> column (what pandas
  builds from the extracted rows or reads from a file with rows) or an object column
  holding Python \<open>int\<close>s (what \<open>read_csv\<close> yields for a file that has a header and
  no rows). The difference shows in \<open>Series.sum() / len(df)\<close>.

  \<^item> On an \<open>int64\<close> column \<open>sum()\<close> adds in 64-bit two's complement and wraps around
    silently (\<open>wrap64\<close>); the total is a numpy scalar, and \<open>/\<close> converts both
    operands to binary64 and divides there, giving \<open>nan\<close> or \<open>inf\<close> with a warning
    when the divisor is zero.
  \<^item> On an object column \<open>sum()\<close> adds Python integers, which are unbounded, and
    \<open>/\<close> is Python's \<open>int / int\<close>: the binary64 number nearest to the exact
    quotient, \<open>ZeroDivisionError\<close> for a zero divisor and \<open>OverflowError\<close> when the
    quotient is beyond the binary64 range.

  A binary64 value is kept as the rational number it denotes. \<open>nearest_binary64\<close> is
  IEEE 754 rounding to nearest, ties to even, with 53 significant bits and the smallest
  exponent \<open>-1022\<close> (below it the spacing stays \<open>2 ^ -1074\<close>); \<open>binary64\<close> adds
  the overflow to infinity at \<open>2 ^ 1024\<close>.
\<close>

datatype dtype = Int64 | Object

record data_frame =
  numeric_dtype :: dtype
  records :: "commit_row list"

definition wrap64 :: "int \<Rightarrow> int" where
  "wrap64 x = (x + 2 ^ 63) mod 2 ^ 64 - 2 ^ 63"

function bit_length :: "int \<Rightarrow> int" where
  "bit_length n = (if n \<le> 0 then 0 else bit_length (n div 2) + 1)"
  by pat_completeness auto
termination
  by (relation "measure nat") auto

declare bit_length.simps [simp del]

text \<open>\<open>floor_log2 a\<close> is the exponent \<open>e\<close> with \<open>2 ^ e \<le> a < 2 ^ (e + 1)\<close>, for \<open>0 < a\<close>.\<close>

definition floor_log2 :: "rat \<Rightarrow> int" where
  "floor_log2 a =
     (if 1 \<le> a then bit_length \<lfloor>a\<rfloor> - 1
      else - bit_length (\<lceil>1 / a\<rceil> - 1))"

definition pow2 :: "int \<Rightarrow> rat" where
  "pow2 e = (if 0 \<le> e then 2 ^ nat e else 1 / 2 ^ nat (- e))"

definition round_half_even :: "rat \<Rightarrow> int" where
  "round_half_even x =
     (let f = \<lfloor>x\<rfloor>; r = x - of_int f
      in if r < 1 / 2 then f else if 1 / 2 < r then f + 1 else if even f then f else f + 1)"

definition nearest_binary64 :: "rat \<Rightarrow> rat" where
  "nearest_binary64 q =
     (if q = 0 then 0
      else let a = \<bar>q\<bar>;
               e = max (floor_log2 a) (- 1022);
               ulp = pow2 (e - 52);
               v = of_int (round_half_even (a / ulp)) * ulp
           in if 0 < q then v else - v)"

datatype np_float = Finite rat | NaN | PosInf | NegInf

definition binary64 :: "rat \<Rightarrow> np_float" where
  "binary64 q =
     (let v = nearest_binary64 q
      in if pow2 1024 \<le> v then PosInf else if v \<le> - pow2 1024 then NegInf else Finite v)"

text \<open>
  \<open>true_divide d a b\<close> is \<open>a / b\<close> for a column total \<open>a\<close> of a column of type \<open>d\<close>
  and a Python \<open>int\<close> \<open>b\<close>.
\<close>

definition true_divide :: "dtype \<Rightarrow> int \<Rightarrow> int \<Rightarrow> py_error + np_float" where
  "true_divide d a b =
     (case d of
        Int64 \<Rightarrow>
          Inr (if b = 0 then (if a = 0 then NaN else if 0 < a then PosInf else NegInf)
               else binary64 (nearest_binary64 (of_int a) / nearest_binary64 (of_int b)))
      | Object \<Rightarrow>
          if b = 0 then Inl ZeroDivisionError
          else (case binary64 (of_int a / of_int b) of
                  Finite v \<Rightarrow> Inr (Finite v)
                | _ \<Rightarrow> Inl OverflowError))"

section \<open>Change summaries (analyzer.py)\<close>

text \<open>\<open>Series.sum()\<close> of a numeric column of type \<open>d\<close>.\<close>

definition column_sum :: "dtype \<Rightarrow> (commit_row \<Rightarrow> int) \<Rightarrow> commit_row list \<Rightarrow> int" where
  "column_sum d col rs =
     (case d of
        Int64 \<Rightarrow> wrap64 (sum_list (map col rs))
      | Object \<Rightarrow> sum_list (map col rs))"

record change_summary =
  total_commits :: int
  total_files_changed :: int
  total_additions :: int
  total_deletions :: int
  avg_files_per_commit :: np_float
  avg_additions_per_commit :: np_float
  avg_deletions_per_commit :: np_float

text \<open>
  \<open>analyze_file_changes\<close>: the three column totals, then the dictionary whose last
  three entries divide by \<open>len(self.commit_df)\<close>. Python evaluates the entries in
  order, so the first division that raises decides the error.
\<close>

definition analyze_file_changes :: "data_frame \<Rightarrow> py_error + change_summary" where
  "analyze_file_changes df =
     (let rs = records df;
          d = numeric_dtype df;
          additions = column_sum d insertions rs;
          dels = column_sum d deletions rs;
          nfiles = column_sum d files_changed rs;
          n = int (length rs)
      in case true_divide d nfiles n of
           Inl e \<Rightarrow> Inl e
         | Inr avg_files \<Rightarrow>
             (case true_divide d additions n of
                Inl e \<Rightarrow> Inl e
              | Inr avg_additions \<Rightarrow>
                  (case true_divide d dels n of
                     Inl e \<Rightarrow> Inl e
                   | Inr avg_deletions \<Rightarrow>
                       Inr \<lparr>total_commits = n,
                            total_files_changed = nfiles,
                            total_additions = additions,
                            total_deletions = dels,
                            avg_files_per_commit = avg_files,
                            avg_additions_per_commit = avg_additions,
                            avg_deletions_per_commit = avg_deletions\<rparr>)))"

record developer_productivity =
  developer :: string
  commit_count :: int
  dev_total_files_changed :: int
  dev_total_additions :: int
  dev_total_deletions :: int
  dev_avg_files_per_commit :: np_float
  dev_avg_additions_per_commit :: np_float
  dev_avg_deletions_per_commit :: np_float

text \<open>
  \<open>get_developer_productivity\<close>: the rows whose \<open>author_name\<close> equals the given name;
  \<open>None\<close> when there is none, otherwise the same totals and averages over these rows.
\<close>

definition get_developer_productivity ::
  "data_frame \<Rightarrow> string \<Rightarrow> py_error + developer_productivity option" where
  "get_developer_productivity df developer_name =
     (let dev_commits = filter (\<lambda>r. author_name r = developer_name) (records df);
          d = numeric_dtype df
      in if length dev_commits = 0 then Inr None
         else
           let additions = column_sum d insertions dev_commits;
               dels = column_sum d deletions dev_commits;
               nfiles = column_sum d files_changed dev_commits;
               n = int (length dev_commits)
           in case true_divide d nfiles n of
                Inl e \<Rightarrow> Inl e
              | Inr avg_files \<Rightarrow>
                  (case true_divide d additions n of
                     Inl e \<Rightarrow> Inl e
                   | Inr avg_additions \<Rightarrow>
                       (case true_divide d dels n of
                          Inl e \<Rightarrow> Inl e
                        | Inr avg_deletions \<Rightarrow>
                            Inr (Some \<lparr>developer = developer_name,
                                       commit_count = n,
                                       dev_total_files_changed = nfiles,
                                       dev_total_additions = additions,
                                       dev_total_deletions = dels,
                                       dev_avg_files_per_commit = avg_files,
                                       dev_avg_additions_per_commit = avg_additions,
                                       dev_avg_deletions_per_commit = avg_deletions\<rparr>))))"

section \<open>Rankings and distributions (analyzer.py)\<close>

text \<open>
  \<open>Series.value_counts()\<close> works in two steps. A hash table pass counts the values and
  yields each distinct value once with its count (\<open>value_count\<close>; \<open>bump\<close> is one
  insertion). Then the counts are sorted in descending order by \<open>Series.sort_values\<close>.
\<close>

fun bump :: "'a \<Rightarrow> ('a \<times> nat) list \<Rightarrow> ('a \<times> nat) list" where
  "bump x [] = [(x, 1)]"
| "bump x ((k, c) # t) = (if k = x then (k, c + 1) # t else (k, c) # bump x t)"

definition value_count :: "'a list \<Rightarrow> ('a \<times> nat) list" where
  "value_count xs = foldl (\<lambda>t x. bump x t) [] xs"

text \<open>
  \<open>sort_values\<close> reorders the table by an index permutation that its sorting routine
  computes from the counts alone. \<open>value_counts\<close> calls it with the default algorithm,
  which pandas documents as not stable, and pandas promises no order among equal counts.
  The routine is therefore a parameter \<open>argsort\<close> of the model, and
  \<open>argsort_descending\<close> is what is known of it: the result is a permutation of the
  positions that puts the counts in non-increasing order.
\<close>

type_synonym argsort = "nat list \<Rightarrow> nat list"

definition argsort_descending :: "argsort \<Rightarrow> bool" where
  "argsort_descending argsort \<longleftrightarrow>
     (\<forall>cs. mset (argsort cs) = mset [0..<length cs]
         \<and> sorted_wrt (\<lambda>i j. cs ! j \<le> cs ! i) (argsort cs))"

definition sort_values :: "argsort \<Rightarrow> ('a \<times> nat) list \<Rightarrow> ('a \<times> nat) list" where
  "sort_values argsort t = map (\<lambda>i. t ! i) (argsort (map snd t))"

definition value_counts :: "argsort \<Rightarrow> 'a list \<Rightarrow> ('a \<times> nat) list" where
  "value_counts argsort xs = sort_values argsort (value_count xs)"

text \<open>
  \<open>DataFrame.head(n)\<close> is \<open>iloc[:n]\<close>: the first \<open>n\<close> rows, and for a negative
  \<open>n\<close> all rows but the last \<open>-n\<close>.
\<close>

definition head :: "int \<Rightarrow> 'a list \<Rightarrow> 'a list" where
  "head n t = (if 0 \<le> n then take (nat n) t else take (length t - nat (- n)) t)"

text \<open>
  \<open>analyze_developer_activity\<close>: the counts of the \<open>author_name\<close> column, as a table
  of developer and commit count, cut to its first \<open>top_n\<close> rows.
\<close>

definition analyze_developer_activity :: "argsort \<Rightarrow> data_frame \<Rightarrow> int \<Rightarrow> (string \<times> nat) list" where
  "analyze_developer_activity argsort df top_n =
     (let activity = value_counts argsort (map author_name (records df))
      in head top_n activity)"

text \<open>
  The \<open>dt\<close> accessors on a naive instant. The hour and the day of the week (Monday is 0;
  1970-01-01 was a Thursday) come from the count of microseconds directly, the month from
  the civil calendar of the day number.
\<close>

definition dt_hour :: "naive_datetime \<Rightarrow> int" where
  "dt_hour t = (t div 3600000000) mod 24"

definition dt_dayofweek :: "naive_datetime \<Rightarrow> int" where
  "dt_dayofweek t = (t div 86400000000 + 3) mod 7"

definition dt_month :: "naive_datetime \<Rightarrow> int" where
  "dt_month t =
     (let z = t div 86400000000 + 719468;
          era = z div 146097;
          doe = z - era * 146097;
          yoe = (doe - doe div 1460 + doe div 36524 - doe div 146096) div 365;
          doy = doe - (365 * yoe + yoe div 4 - yoe div 100);
          mp = (5 * doy + 2) div 153
      in if mp < 10 then mp + 3 else mp - 9)"

definition sort_index :: "('a::linorder \<times> nat) list \<Rightarrow> ('a \<times> nat) list" where
  "sort_index t = sort_key fst t"

text \<open>The count a table holds for a key (0 when the key is absent); used in the proofs.\<close>

definition cnt_of :: "('a \<times> nat) list \<Rightarrow> 'a \<Rightarrow> nat" where
  "cnt_of t k = (case map_of t k of None \<Rightarrow> 0 | Some c \<Rightarrow> c)"

text \<open>The two name tables of the source, as the UTF-8 bytes of their entries.\<close>

definition day_names :: "string list" where
  "day_names =
     [[CHR 0xE5, CHR 0x91, CHR 0xA8, CHR 0xE4, CHR 0xB8, CHR 0x80],
      [CHR 0xE5, CHR 0x91, CHR 0xA8, CHR 0xE4, CHR 0xBA, CHR 0x8C],
      [CHR 0xE5, CHR 0x91, CHR 0xA8, CHR 0xE4, CHR 0xB8, CHR 0x89],
      [CHR 0xE5, CHR 0x91, CHR 0xA8, CHR 0xE5, CHR 0x9B, CHR 0x9B],
      [CHR 0xE5, CHR 0x91, CHR 0xA8, CHR 0xE4, CHR 0xBA, CHR 0x94],
      [CHR 0xE5, CHR 0x91, CHR 0xA8, CHR 0xE5, CHR 0x85, CHR 0xAD],
      [CHR 0xE5, CHR 0x91, CHR 0xA8, CHR 0xE6, CHR 0x97, CHR 0xA5]]"

definition month_names :: "string list" where
  "month_names =
     [[CHR 0xE4, CHR 0xB8, CHR 0x80, CHR 0xE6, CHR 0x9C, CHR 0x88],
      [CHR 0xE4, CHR 0xBA, CHR 0x8C, CHR 0xE6, CHR 0x9C, CHR 0x88],
      [CHR 0xE4, CHR 0xB8, CHR 0x89, CHR 0xE6, CHR 0x9C, CHR 0x88],
      [CHR 0xE5, CHR 0x9B, CHR 0x9B, CHR 0xE6, CHR 0x9C, CHR 0x88],
      [CHR 0xE4, CHR 0xBA, CHR 0x94, CHR 0xE6, CHR 0x9C, CHR 0x88],
      [CHR 0xE5, CHR 0x85, CHR 0xAD, CHR 0xE6, CHR 0x9C, CHR 0x88],
      [CHR 0xE4, CHR 0xB8, CHR 0x83, CHR 0xE6, CHR 0x9C, CHR 0x88],
      [CHR 0xE5, CHR 0x85, CHR 0xAB, CHR 0xE6, CHR 0x9C, CHR 0x88],
      [CHR 0xE4, CHR 0xB9, CHR 0x9D, CHR 0xE6, CHR 0x9C, CHR 0x88],
      [CHR 0xE5, CHR 0x8D, CHR 0x81, CHR 0xE6, CHR 0x9C, CHR 0x88],
      [CHR 0xE5, CHR 0x8D, CHR 0x81, CHR 0xE4, CHR 0xB8, CHR 0x80, CHR 0xE6, CHR 0x9C, CHR 0x88],
      [CHR 0xE5, CHR 0x8D, CHR 0x81, CHR 0xE4, CHR 0xBA, CHR 0x8C, CHR 0xE6, CHR 0x9C, CHR 0x88]]"

text \<open>
  A bucket is labelled by a number (the hour) or by a name (day of the week, month).
  \<open>analyze_commit_time_distribution\<close> counts the accessor's values, sorts the table by
  its index and, for the two named units, maps each index to its name; the indices are
  0 to 6 and 1 to 12, so the table lookups stay in range. Any other unit raises
  \<open>ValueError\<close>.
\<close>

datatype label = IntLabel int | StrLabel string

definition analyze_commit_time_distribution ::
  "argsort \<Rightarrow> data_frame \<Rightarrow> string \<Rightarrow> py_error + (label \<times> nat) list" where
  "analyze_commit_time_distribution argsort df time_unit =
     (if time_unit = ''hour'' then
        Inr (map (\<lambda>(x, c). (IntLabel x, c))
               (sort_index (value_counts argsort (map (\<lambda>r. dt_hour (datetime r)) (records df)))))
      else if time_unit = ''dayofweek'' then
        Inr (map (\<lambda>(x, c). (StrLabel (day_names ! nat x), c))
               (sort_index (value_counts argsort (map (\<lambda>r. dt_dayofweek (datetime r)) (records df)))))
      else if time_unit = ''month'' then
        Inr (map (\<lambda>(x, c). (StrLabel (month_names ! nat (x - 1)), c))
               (sort_index (value_counts argsort (map (\<lambda>r. dt_month (datetime r)) (records df)))))
      else Inl ValueError)"

text \<open>
  The order among equal counts as the specification words it: of two entries with the
  same count, the one whose key is met first in the column comes first.
  \<open>first_index\<close> is the position of the first occurrence.
\<close>

definition first_index :: "'a list \<Rightarrow> 'a \<Rightarrow> nat" where
  "first_index xs x = length (takeWhile (\<lambda>y. y \<noteq> x) xs)"

definition ties_first_encountered :: "'a list \<Rightarrow> ('a \<times> nat) list \<Rightarrow> bool" where
  "ties_first_encountered xs r \<longleftrightarrow>
     sorted_wrt (\<lambda>e f. snd e = snd f \<longrightarrow> first_index xs (fst e) < first_index xs (fst f)) r"

text \<open>
  Two sorting routines that meet \<open>argsort_descending\<close>: one keeps equal counts in
  their order of arrival, the other reverses it.
\<close>

definition stable_argsort :: argsort where
  "stable_argsort cs = sort_key (\<lambda>i. - int (cs ! i)) [0..<length cs]"

definition reversing_argsort :: argsort where
  "reversing_argsort cs = rev (sort_key (\<lambda>i. cs ! i) [0..<length cs])"

section \<open>History extraction (data_fetcher.py)\<close>

text \<open>
  \<open>astimezone(pytz.UTC)\<close> keeps the instant and re-expresses it at offset zero;
  \<open>replace(tzinfo=None)\<close> drops the offset and keeps the wall-clock reading.
\<close>

definition astimezone_UTC :: "aware_datetime \<Rightarrow> aware_datetime" where
  "astimezone_UTC d = \<lparr>wallclock = wallclock d - utcoffset d, utcoffset = 0\<rparr>"

definition replace_tzinfo_None :: "aware_datetime \<Rightarrow> naive_datetime" where
  "replace_tzinfo_None d = wallclock d"

text \<open>
  \<open>str.strip()\<close> removes, at both ends, the characters for which \<open>str.isspace()\<close>
  holds. Strings are UTF-8 byte strings here, and \<open>white_space\<close> lists the encodings of
  these characters: the ASCII ones (tab to carriage return, the separators 28 to 31, the
  space), then U+0085, U+00A0, U+1680, U+2000 to U+200A, U+2028, U+2029, U+202F, U+205F
  and U+3000. \<open>lstrip_tokens\<close> removes leading occurrences of the given byte sequences;
  the right end is treated on the reversed string.
\<close>

definition white_space :: "string list" where
  "white_space =
     [[CHR 0x09], [CHR 0x0A], [CHR 0x0B], [CHR 0x0C], [CHR 0x0D], [CHR 0x1C], [CHR 0x1D],
      [CHR 0x1E], [CHR 0x1F], [CHR 0x20], [CHR 0xC2, CHR 0x85], [CHR 0xC2, CHR 0xA0],
      [CHR 0xE1, CHR 0x9A, CHR 0x80], [CHR 0xE2, CHR 0x80, CHR 0x80],
      [CHR 0xE2, CHR 0x80, CHR 0x81], [CHR 0xE2, CHR 0x80, CHR 0x82],
      [CHR 0xE2, CHR 0x80, CHR 0x83], [CHR 0xE2, CHR 0x80, CHR 0x84],
      [CHR 0xE2, CHR 0x80, CHR 0x85], [CHR 0xE2, CHR 0x80, CHR 0x86],
      [CHR 0xE2, CHR 0x80, CHR 0x87], [CHR 0xE2, CHR 0x80, CHR 0x88],
      [CHR 0xE2, CHR 0x80, CHR 0x89], [CHR 0xE2, CHR 0x80, CHR 0x8A],
      [CHR 0xE2, CHR 0x80, CHR 0xA8], [CHR 0xE2, CHR 0x80, CHR 0xA9],
      [CHR 0xE2, CHR 0x80, CHR 0xAF], [CHR 0xE2, CHR 0x81, CHR 0x9F],
      [CHR 0xE3, CHR 0x80, CHR 0x80]]"

function lstrip_tokens :: "string list \<Rightarrow> string \<Rightarrow> string" where
  "lstrip_tokens ws s =
     (case find (\<lambda>w. w \<noteq> [] \<and> take (length w) s = w) ws of
        None \<Rightarrow> s
      | Some w \<Rightarrow> lstrip_tokens ws (drop (length w) s))"
  by pat_completeness auto
termination
proof (relation "measure (\<lambda>(ws, s). length s)")
  show "wf (measure (\<lambda>(ws, s). length s))" by simp
next
  fix ws :: "string list" and s w :: string
  assume "find (\<lambda>w. w \<noteq> [] \<and> take (length w) s = w) ws = Some w"
  then have w: "w \<noteq> []" "take (length w) s = w"
    by (auto simp: find_Some_iff)
  from w(2) have "length (take (length w) s) = length w"
    by (rule arg_cong)
  then have "length w \<le> length s"
    by (simp add: min_def split: if_splits)
  with w(1) have "length (drop (length w) s) < length s"
    by (cases w) simp_all
  then show "((ws, drop (length w) s), (ws, s)) \<in> measure (\<lambda>(ws, s). length s)"
    by simp
qed

definition strip :: "string \<Rightarrow> string" where
  "strip s = rev (lstrip_tokens (map rev white_space) (rev (lstrip_tokens white_space s)))"

definition dict_get :: "(string \<times> int) list \<Rightarrow> string \<Rightarrow> int \<Rightarrow> int" where
  "dict_get d k dflt = (case map_of d k of None \<Rightarrow> dflt | Some v \<Rightarrow> v)"

text \<open>
  The body of the loop in \<open>get_commit_history\<close>. Its first statement reads
  \<open>commit.stats\<close> outside any \<open>try\<close>, so an exception there leaves the function.
  \<open>commit_record\<close> is the dictionary built once the statistics are there.
\<close>

definition commit_record :: "git_commit \<Rightarrow> commit_stats \<Rightarrow> commit_row" where
  "commit_record commit st =
     (let utc_datetime = astimezone_UTC (committed_datetime commit);
          datetime_without_tz = replace_tzinfo_None utc_datetime
      in \<lparr>sha = hexsha commit,
          author_name = name (author commit),
          author_email = email (author commit),
          committer_name = name (committer commit),
          committer_email = email (committer commit),
          datetime = datetime_without_tz,
          message = strip (git_commit.message commit),
          insertions = dict_get (total st) ''insertions'' 0,
          deletions = dict_get (total st) ''deletions'' 0,
          lines_changed = dict_get (total st) ''lines'' 0,
          files_changed = int (length (files st)),
          parents = int (length (git_commit.parents commit))\<rparr>)"

definition commit_data :: "git_commit \<Rightarrow> py_error + commit_row" where
  "commit_data commit =
     (case stats commit of
        Inl e \<Rightarrow> Inl e
      | Inr st \<Rightarrow> Inr (commit_record commit st))"

text \<open>
  \<open>if limit and count >= limit: break\<close>. The first operand is Python's truth value
  of \<open>limit\<close>: \<open>None\<close> and \<open>0\<close> are false, every other integer is true.
\<close>

fun limit_reached :: "int option \<Rightarrow> int \<Rightarrow> bool" where
  "limit_reached None cnt = False"
| "limit_reached (Some limit) cnt = (limit \<noteq> 0 \<and> cnt \<ge> limit)"

text \<open>
  The loop over \<open>repo.iter_commits()\<close>, which yields the history newest first. The
  state is the list \<open>commits\<close> built so far and the counter \<open>count\<close> (here \<open>cnt\<close>).
\<close>

fun iter_commits_loop ::
  "int option \<Rightarrow> git_commit list \<Rightarrow> commit_row list \<Rightarrow> int \<Rightarrow> py_error + commit_row list" where
  "iter_commits_loop limit [] commits cnt = Inr commits"
| "iter_commits_loop limit (commit # rest) commits cnt =
     (if limit_reached limit cnt then Inr commits
      else case commit_data commit of
             Inl e \<Rightarrow> Inl e
           | Inr d \<Rightarrow> iter_commits_loop limit rest (commits @ [d]) (cnt + 1))"

text \<open>
  \<open>get_commit_history\<close>, given the commits that \<open>iter_commits\<close> of the opened
  repository yields. (\<open>open_repo\<close> raises before the loop when the path is unset or is
  not a repository.) The rows returned are those of the DataFrame built from
  \<open>commits\<close>.
\<close>

definition get_commit_history :: "git_commit list \<Rightarrow> int option \<Rightarrow> py_error + commit_row list" where
  "get_commit_history repo limit = iter_commits_loop limit repo [] 0"

text \<open>
  The rows of a whole list of commits, in order; the first commit whose statistics raise
  decides the outcome. This is the reference against which the loop is described.
\<close>

fun rows_of :: "git_commit list \<Rightarrow> py_error + commit_row list" where
  "rows_of [] = Inr []"
| "rows_of (c # cs) =
     (case commit_data c of
        Inl e \<Rightarrow> Inl e
      | Inr d \<Rightarrow> (case rows_of cs of Inl e \<Rightarrow> Inl e | Inr ds \<Rightarrow> Inr (d # ds)))"

section \<open>History extraction through the GitHub API (fetch_axios_api.py)\<close>

text \<open>
  A response body is a JSON value. The operations the code applies to it are Python's:
  subscription \<open>x['k']\<close>, \<open>x.get('k', default)\<close>, \<open>len(x)\<close>, \<open>x.strip()\<close>,
  iteration and truth value; each raises what Python raises on a value of the wrong
  kind. A dictionary is the list of its items (keys distinct).
\<close>

datatype json =
    JNull
  | JBool bool
  | JInt int
  | JStr string
  | JList "json list"
  | JDict "(string \<times> json) list"

definition ebind :: "'e + 'a \<Rightarrow> ('a \<Rightarrow> 'e + 'b) \<Rightarrow> 'e + 'b" where
  "ebind x f = (case x of Inl e \<Rightarrow> Inl e | Inr v \<Rightarrow> f v)"

fun getitem :: "json \<Rightarrow> string \<Rightarrow> py_error + json" where
  "getitem (JDict kvs) k = (case map_of kvs k of None \<Rightarrow> Inl KeyError | Some v \<Rightarrow> Inr v)"
| "getitem _ k = Inl TypeError"

fun get_default :: "json \<Rightarrow> string \<Rightarrow> json \<Rightarrow> py_error + json" where
  "get_default (JDict kvs) k dflt = Inr (case map_of kvs k of None \<Rightarrow> dflt | Some v \<Rightarrow> v)"
| "get_default _ k dflt = Inl AttributeError"

fun py_len :: "json \<Rightarrow> py_error + int" where
  "py_len (JList xs) = Inr (int (length xs))"
| "py_len (JDict kvs) = Inr (int (length kvs))"
| "py_len (JStr s) = Inr (int (length s))"
| "py_len _ = Inl TypeError"

fun str_strip :: "json \<Rightarrow> py_error + string" where
  "str_strip (JStr s) = Inr (strip s)"
| "str_strip _ = Inl AttributeError"

fun py_iter :: "json \<Rightarrow> py_error + json list" where
  "py_iter (JList xs) = Inr xs"
| "py_iter (JDict kvs) = Inr (map (\<lambda>kv. JStr (fst kv)) kvs)"
| "py_iter (JStr s) = Inr (map (\<lambda>c. JStr [c]) s)"
| "py_iter _ = Inl TypeError"

fun py_bool :: "json \<Rightarrow> bool" where
  "py_bool JNull = False"
| "py_bool (JBool b) = b"
| "py_bool (JInt i) = (i \<noteq> 0)"
| "py_bool (JStr s) = (s \<noteq> [])"
| "py_bool (JList xs) = (xs \<noteq> [])"
| "py_bool (JDict kvs) = (kvs \<noteq> [])"

text \<open>
  \<open>datetime.strptime(s, '%Y-%m-%dT%H:%M:%SZ')\<close> is the standard library's parser; it
  is a parameter \<open>strptime\<close> of the model, from the text to the naive instant it reads
  or to \<open>ValueError\<close>. A value that is not a string is refused with \<open>TypeError\<close>.
\<close>

type_synonym parser = "string \<Rightarrow> py_error + naive_datetime"

fun datetime_strptime :: "parser \<Rightarrow> json \<Rightarrow> py_error + naive_datetime" where
  "datetime_strptime strptime (JStr s) = strptime s"
| "datetime_strptime strptime _ = Inl TypeError"

text \<open>
  The rows of this path hold whatever the payload holds: nothing checks that a name is a
  string or that a count is a number.
\<close>

record api_row =
  api_sha :: json
  api_author_name :: json
  api_author_email :: json
  api_committer_name :: json
  api_committer_email :: json
  api_datetime :: naive_datetime
  api_message :: string
  api_insertions :: json
  api_deletions :: json
  api_lines_changed :: json
  api_files_changed :: int
  api_parents :: int

definition getitem3 :: "json \<Rightarrow> string \<Rightarrow> string \<Rightarrow> string \<Rightarrow> py_error + json" where
  "getitem3 x a b c = ebind (getitem x a) (\<lambda>y. ebind (getitem y b) (\<lambda>z. getitem z c))"

text \<open>
  The body of the inner \<open>try\<close>: the committer date is read and parsed, UTC is attached
  (\<open>replace(tzinfo=pytz.UTC)\<close> changes no reading) and removed again, then the
  dictionary is built entry by entry.
\<close>

definition api_commit_data :: "parser \<Rightarrow> json \<Rightarrow> py_error + api_row" where
  "api_commit_data strptime commit =
     ebind (getitem3 commit ''commit'' ''committer'' ''date'') (\<lambda>commit_date_str.
     ebind (datetime_strptime strptime commit_date_str) (\<lambda>commit_datetime.
     let utc_datetime = \<lparr>wallclock = commit_datetime, utcoffset = 0\<rparr>;
         datetime_without_tz = replace_tzinfo_None utc_datetime
     in
     ebind (getitem commit ''sha'') (\<lambda>v_sha.
     ebind (getitem3 commit ''commit'' ''author'' ''name'') (\<lambda>v_author_name.
     ebind (getitem3 commit ''commit'' ''author'' ''email'') (\<lambda>v_author_email.
     ebind (getitem3 commit ''commit'' ''committer'' ''name'') (\<lambda>v_committer_name.
     ebind (getitem3 commit ''commit'' ''committer'' ''email'') (\<lambda>v_committer_email.
     ebind (ebind (ebind (getitem commit ''commit'') (\<lambda>c. getitem c ''message'')) str_strip)
       (\<lambda>v_message.
     ebind (ebind (get_default commit ''stats'' (JDict [])) (\<lambda>st. get_default st ''additions'' (JInt 0)))
       (\<lambda>v_insertions.
     ebind (ebind (get_default commit ''stats'' (JDict [])) (\<lambda>st. get_default st ''deletions'' (JInt 0)))
       (\<lambda>v_deletions.
     ebind (ebind (get_default commit ''stats'' (JDict [])) (\<lambda>st. get_default st ''total'' (JInt 0)))
       (\<lambda>v_lines_changed.
     ebind (ebind (get_default commit ''files'' (JList [])) py_len) (\<lambda>v_files_changed.
     ebind (ebind (get_default commit ''parents'' (JList [])) py_len) (\<lambda>v_parents.
       Inr \<lparr>api_sha = v_sha,
            api_author_name = v_author_name,
            api_author_email = v_author_email,
            api_committer_name = v_committer_name,
            api_committer_email = v_committer_email,
            api_datetime = datetime_without_tz,
            api_message = v_message,
            api_insertions = v_insertions,
            api_deletions = v_deletions,
            api_lines_changed = v_lines_changed,
            api_files_changed = v_files_changed,
            api_parents = v_parents\<rparr>)))))))))))))"

text \<open>
  The loop over the commits of one page. An exception in the body is caught; the handler
  prints \<open>commit['sha']\<close> and goes on to the next commit, so the commit is left out. The
  handler's own subscription is unprotected: if it raises, the exception leaves the
  function (the outer \<open>except\<close> catches request errors only).
\<close>

fun page_commits_loop :: "parser \<Rightarrow> json list \<Rightarrow> api_row list \<Rightarrow> py_error + api_row list" where
  "page_commits_loop strptime [] commits = Inr commits"
| "page_commits_loop strptime (commit # rest) commits =
     (case api_commit_data strptime commit of
        Inr d \<Rightarrow> page_commits_loop strptime rest (commits @ [d])
      | Inl e \<Rightarrow>
          (case getitem commit ''sha'' of
             Inl e' \<Rightarrow> Inl e'
           | Inr _ \<Rightarrow> page_commits_loop strptime rest commits))"

text \<open>
  The loop over the pages. \<open>get_page page\<close> stands for the request, the status check
  and the decoding of the body; its failure is a \<open>RequestException\<close>, on which the loop
  ends with what it has. An empty body ends the loop as well.
\<close>

definition except_RequestException :: "api_row list \<Rightarrow> py_error \<Rightarrow> py_error + api_row list" where
  "except_RequestException commits e = (if e = RequestException then Inr commits else Inl e)"

fun pages_loop ::
  "parser \<Rightarrow> (int \<Rightarrow> py_error + json) \<Rightarrow> int list \<Rightarrow> api_row list \<Rightarrow> py_error + api_row list" where
  "pages_loop strptime get_page [] commits = Inr commits"
| "pages_loop strptime get_page (page # pages) commits =
     (case get_page page of
        Inl e \<Rightarrow> except_RequestException commits e
      | Inr page_commits \<Rightarrow>
          if \<not> py_bool page_commits then Inr commits
          else (case py_iter page_commits of
                  Inl e \<Rightarrow> except_RequestException commits e
                | Inr items \<Rightarrow>
                    (case page_commits_loop strptime items commits of
                       Inl e \<Rightarrow> except_RequestException commits e
                     | Inr commits' \<Rightarrow> pages_loop strptime get_page pages commits')))"

definition fetch_commits_from_github_api ::
  "parser \<Rightarrow> (int \<Rightarrow> int \<Rightarrow> py_error + json) \<Rightarrow> int \<Rightarrow> int \<Rightarrow> py_error + api_row list" where
  "fetch_commits_from_github_api strptime requests_get per_page max_pages =
     pages_loop strptime (requests_get per_page) [1..max_pages] []"

section \<open>Example data\<close>

definition example_commit :: "string \<Rightarrow> string \<Rightarrow> int \<Rightarrow> int \<Rightarrow> py_error + commit_stats \<Rightarrow> git_commit" where
  "example_commit h a t off st =
     \<lparr>hexsha = h,
      author = \<lparr>name = a, email = a @ ''@example.org''\<rparr>,
      committer = \<lparr>name = a, email = a @ ''@example.org''\<rparr>,
      committed_datetime = \<lparr>wallclock = t, utcoffset = off\<rparr>,
      message = '' work '',
      stats = st,
      parents = [''p'']\<rparr>"

definition full_stats :: "py_error + commit_stats" where
  "full_stats = Inr \<lparr>total = [(''insertions'', 10), (''deletions'', 5), (''lines'', 15),
                               (''files'', 2)],
                     files = [''a.py'', ''b.py'']\<rparr>"

definition bare_stats :: "py_error + commit_stats" where
  "bare_stats = Inr \<lparr>total = [], files = []\<rparr>"

definition example_repo :: "git_commit list" where
  "example_repo =
     [example_commit ''c3'' ''Alice'' 1672660800000000 7200000000 full_stats,
      example_commit ''c2'' ''Bob'' 1672570800000000 (- 18000000000) bare_stats,
      example_commit ''c1'' ''Alice'' 1672567200000000 0 full_stats]"

definition broken_repo :: "git_commit list" where
  "broken_repo =
     [example_commit ''c3'' ''Alice'' 1672660800000000 7200000000 full_stats,
      example_commit ''c2'' ''Bob'' 1672570800000000 (- 18000000000) (Inl GitCommandError),
      example_commit ''c1'' ''Alice'' 1672567200000000 0 full_stats]"

definition example_row :: "string \<Rightarrow> string \<Rightarrow> int \<Rightarrow> int \<Rightarrow> int \<Rightarrow> int \<Rightarrow> commit_row" where
  "example_row h a t ins del nfiles =
     \<lparr>sha = h, author_name = a, author_email = a @ ''@example.org'',
      committer_name = a, committer_email = a @ ''@example.org'',
      datetime = t, message = ''work'',
      insertions = ins, deletions = del, lines_changed = ins + del,
      files_changed = nfiles, parents = 1\<rparr>"

definition example_frame :: data_frame where
  "example_frame =
     \<lparr>numeric_dtype = Int64,
      records = [example_row ''abc123'' ''Alice'' 1672567200000000 10 5 2,
                 example_row ''def456'' ''Bob'' 1672673400000000 20 0 1,
                 example_row ''ghi789'' ''Alice'' 1672737300000000 5 2 3]\<rparr>"

definition example_strptime :: parser where
  "example_strptime s =
     (if s = ''2023-01-01T10:00:00Z'' then Inr 1672567200000000
      else if s = ''2023-01-02T15:30:00Z'' then Inr 1672673400000000
      else if s = ''2023-01-03T09:15:00Z'' then Inr 1672737300000000
      else Inl ValueError)"

definition person :: "string \<Rightarrow> string \<Rightarrow> json" where
  "person a d = JDict [(''name'', JStr a), (''email'', JStr (a @ ''@example.org'')), (''date'', JStr d)]"

definition payload :: "string \<Rightarrow> string \<Rightarrow> string \<Rightarrow> (string \<times> json) list \<Rightarrow> json" where
  "payload h a d extra =
     JDict ([(''sha'', JStr h),
             (''commit'', JDict [(''author'', person a d), (''committer'', person a d),
                                 (''message'', JStr ''Fix parser '')]),
             (''parents'', JList [JDict [(''sha'', JStr ''p'')]])] @ extra)"

definition full_payload :: json where
  "full_payload =
     payload ''c3'' ''Alice'' ''2023-01-03T09:15:00Z''
       [(''stats'', JDict [(''additions'', JInt 10), (''deletions'', JInt 5), (''total'', JInt 15)]),
        (''files'', JList [JDict [(''filename'', JStr ''a.py'')]])]"

definition null_stats_payload :: json where
  "null_stats_payload = payload ''c2'' ''Bob'' ''2023-01-02T15:30:00Z'' [(''stats'', JNull)]"

definition bare_payload_items :: "(string \<times> json) list" where
  "bare_payload_items =
     [(''sha'', JStr ''c1''),
      (''commit'', JDict [(''author'', person ''Alice'' ''2023-01-01T10:00:00Z''),
                          (''committer'', person ''Alice'' ''2023-01-01T10:00:00Z''),
                          (''message'', JStr ''Fix parser '')]),
      (''parents'', JList [JDict [(''sha'', JStr ''p'')]])]"

definition example_page :: json where
  "example_page = JList [full_payload, null_stats_payload, JDict bare_payload_items]"

definition example_requests_get :: "int \<Rightarrow> int \<Rightarrow> py_error + json" where
  "example_requests_get per_page page = (if page = 1 then Inr example_page else Inr (JList []))"

definition overflow_frame :: data_frame where
  "overflow_frame =
     \<lparr>numeric_dtype = Int64,
      records = [example_row ''abc123'' ''Alice'' 1672567200000000 4611686018427387904 0 1,
                 example_row ''def456'' ''Bob'' 1672673400000000 4611686018427387904 0 1]\<rparr>"

definition object_frame :: data_frame where
  "object_frame =
     \<lparr>numeric_dtype = Object,
      records = [example_row ''abc123'' ''Alice'' 1672567200000000 18446744073709551616 0 1,
                 example_row ''def456'' ''Bob'' 1672673400000000 18446744073709551616 3 2]\<rparr>"

definition ten_frame :: data_frame where
  "ten_frame =
     \<lparr>numeric_dtype = Int64,
      records = [example_row ''a01'' ''Alice'' 1672567200000000 10 5 2,
                 example_row ''a02'' ''Bob'' 1672570800000000 20 0 1,
                 example_row ''a03'' ''Carol'' 1672574400000000 5 2 3,
                 example_row ''a04'' ''Dave'' 1672578000000000 1 1 1,
                 example_row ''a05'' ''Alice'' 1672581600000000 3 0 1,
                 example_row ''a06'' ''Bob'' 1672585200000000 7 7 2,
                 example_row ''a07'' ''Carol'' 1672588800000000 2 9 1,
                 example_row ''a08'' ''Dave'' 1672592400000000 4 4 4,
                 example_row ''a09'' ''Carol'' 1672596000000000 8 1 1,
                 example_row ''a10'' ''Dave'' 1672599600000000 6 3 2]\<rparr>"

definition hours_frame :: data_frame where
  "hours_frame =
     \<lparr>numeric_dtype = Int64,
      records = [example_row ''abc123'' ''Alice'' 1672563600000000 10 5 2,
                 example_row ''def456'' ''Bob'' 1672651800000000 20 0 1,
                 example_row ''ghi789'' ''Alice'' 1672755300000000 5 2 3]\<rparr>"

section \<open>Properties of the binary64 rounding\<close>

lemma bit_length_nonneg: "0 \<le> bit_length n"
  by (induction n rule: bit_length.induct) (subst bit_length.simps, simp)

lemma bit_length_le: "n < 2 ^ k \<Longrightarrow> bit_length n \<le> int k"
proof (induction k arbitrary: n)
  case 0
  then show ?case by (subst bit_length.simps) simp
next
  case (Suc k)
  have "n div 2 < 2 ^ k" using Suc.prems by simp
  from Suc.IH [OF this] show ?case by (subst bit_length.simps) simp
qed

lemma bit_length_lower: "0 < n \<Longrightarrow> 2 ^ nat (bit_length n - 1) \<le> n"
proof (induction n rule: bit_length.induct)
  case (1 n)
  show ?case
  proof (cases "n div 2 \<le> 0")
    case True
    with 1 have "n = 1" by linarith
    then show ?thesis by (simp add: bit_length.simps [of 1] bit_length.simps [of 0])
  next
    case False
    then have pos: "0 < n div 2" by simp
    from 1 pos have ih: "2 ^ nat (bit_length (n div 2) - 1) \<le> n div 2" by simp
    have bl: "bit_length n = bit_length (n div 2) + 1"
      using 1(2) by (subst bit_length.simps) simp
    have b1: "1 \<le> bit_length (n div 2)"
      using pos bit_length_nonneg [of "n div 2 div 2"]
      by (subst bit_length.simps) simp
    have "nat (bit_length n - 1) = Suc (nat (bit_length (n div 2) - 1))"
      using bl b1 by simp
    then have "(2::int) ^ nat (bit_length n - 1) = 2 * 2 ^ nat (bit_length (n div 2) - 1)"
      by simp
    also have "\<dots> \<le> 2 * (n div 2)" using ih by simp
    also have "\<dots> \<le> n" by simp
    finally show ?thesis .
  qed
qed

lemma pow2_powi: "pow2 e = 2 powi e"
  by (simp add: pow2_def power_int_def inverse_eq_divide power_one_over)

lemma pow2_pos: "0 < pow2 e"
  by (simp add: pow2_powi)

lemma pow2_mono: "e \<le> e' \<Longrightarrow> pow2 e \<le> pow2 e'"
  by (simp add: pow2_powi power_int_increasing)

lemma pow2_nat: "pow2 (int k) = 2 ^ k"
  by (simp add: pow2_def)

lemma round_half_even_upper: "of_int (round_half_even x) \<le> x + 1 / 2"
  unfolding round_half_even_def Let_def
  by (auto simp: not_less) linarith+

lemma round_half_even_floor: "\<lfloor>x\<rfloor> \<le> round_half_even x"
  unfolding round_half_even_def Let_def by simp

lemma round_half_even_int: "round_half_even (of_int m) = m"
  unfolding round_half_even_def Let_def by simp


lemma bit_length_pos: "0 < n \<Longrightarrow> 1 \<le> bit_length n"
  using bit_length_nonneg [of "n div 2"] by (subst bit_length.simps) simp

lemma nearest_binary64_minus: "nearest_binary64 (- q) = - nearest_binary64 q"
  by (simp add: nearest_binary64_def Let_def)

lemma floor_log2_le:
  assumes "0 < a" "a \<le> 2 ^ k"
  shows "floor_log2 a \<le> int k"
proof (cases "1 \<le> a")
  case True
  have "\<lfloor>a\<rfloor> \<le> 2 ^ k"
  proof -
    have "\<lfloor>a\<rfloor> \<le> \<lfloor>(2::rat) ^ k\<rfloor>" using assms(2) by (rule floor_mono)
    also have "\<lfloor>(2::rat) ^ k\<rfloor> = 2 ^ k" by (simp add: floor_power)
    finally show ?thesis .
  qed
  moreover have "(2::int) ^ k < 2 ^ Suc k" by simp
  ultimately have "\<lfloor>a\<rfloor> < 2 ^ Suc k" by (rule le_less_trans)
  from bit_length_le [OF this] True show ?thesis by (simp add: floor_log2_def)
next
  case False
  then show ?thesis
    using bit_length_nonneg [of "\<lceil>1 / a\<rceil> - 1"] by (simp add: floor_log2_def)
qed

lemma floor_log2_lower:
  assumes "1 \<le> a"
  shows "0 \<le> floor_log2 a" and "pow2 (floor_log2 a) \<le> a"
proof -
  have pos: "0 < \<lfloor>a\<rfloor>" using assms by linarith
  from bit_length_pos [OF pos] assms show nn: "0 \<le> floor_log2 a"
    by (simp add: floor_log2_def)
  have "pow2 (floor_log2 a) = 2 ^ nat (bit_length \<lfloor>a\<rfloor> - 1)"
    using nn assms by (simp add: pow2_def floor_log2_def)
  also have "\<dots> = of_int (2 ^ nat (bit_length \<lfloor>a\<rfloor> - 1))" by simp
  also have "\<dots> \<le> of_int \<lfloor>a\<rfloor>"
    using bit_length_lower [OF pos] by (simp only: of_int_le_iff)
  also have "\<dots> \<le> a" by simp
  finally show "pow2 (floor_log2 a) \<le> a" .
qed

lemma nearest_binary64_pos_eq:
  "0 < q \<Longrightarrow> nearest_binary64 q
     = of_int (round_half_even (q / pow2 (max (floor_log2 q) (- 1022) - 52)))
       * pow2 (max (floor_log2 q) (- 1022) - 52)"
  by (simp add: nearest_binary64_def Let_def)

lemma nearest_binary64_nonneg:
  assumes "0 < q"
  shows "0 \<le> nearest_binary64 q"
proof -
  let ?u = "pow2 (max (floor_log2 q) (- 1022) - 52)"
  have "0 \<le> q / ?u" using assms pow2_pos [of "max (floor_log2 q) (- 1022) - 52"] by simp
  then have "0 \<le> \<lfloor>q / ?u\<rfloor>" by simp
  with round_half_even_floor [of "q / ?u"] have "0 \<le> round_half_even (q / ?u)" by linarith
  then show ?thesis
    using pow2_pos [of "max (floor_log2 q) (- 1022) - 52"]
    by (simp add: nearest_binary64_pos_eq [OF assms])
qed

lemma nearest_binary64_upper:
  assumes "0 < q" "q \<le> 2 ^ k"
  shows "nearest_binary64 q \<le> 2 ^ Suc k"
proof -
  let ?e = "max (floor_log2 q) (- 1022)"
  let ?u = "pow2 (?e - 52)"
  have u0: "0 < ?u" by (rule pow2_pos)
  have "?e \<le> int k" using floor_log2_le [OF assms] by simp
  then have "?u \<le> pow2 (int k)" by (intro pow2_mono) simp
  then have u: "?u \<le> 2 ^ k" by (simp add: pow2_nat)
  have "of_int (round_half_even (q / ?u)) * ?u \<le> (q / ?u + 1 / 2) * ?u"
    using round_half_even_upper [of "q / ?u"] u0 by (simp only: mult_le_cancel_right_pos)
  also have "\<dots> = q + ?u / 2" using u0 by (simp add: field_simps)
  also have "\<dots> \<le> 2 ^ k + 2 ^ k / 2" using assms(2) u by simp
  also have "\<dots> \<le> 2 ^ Suc k" by simp
  finally show ?thesis by (simp only: nearest_binary64_pos_eq [OF assms(1)])
qed

lemma nearest_binary64_abs_upper:
  assumes "\<bar>q\<bar> \<le> 2 ^ k"
  shows "\<bar>nearest_binary64 q\<bar> \<le> 2 ^ Suc k"
proof -
  consider "q = 0" | "0 < q" | "q < 0" by linarith
  then show ?thesis
  proof cases
    case 1
    then show ?thesis by (simp add: nearest_binary64_def)
  next
    case 2
    with assms have "q \<le> 2 ^ k" by simp
    from nearest_binary64_upper [OF 2 this] nearest_binary64_nonneg [OF 2]
    show ?thesis by simp
  next
    case 3
    then have p: "0 < - q" by simp
    with assms have "- q \<le> 2 ^ k" by simp
    from nearest_binary64_upper [OF p this] nearest_binary64_nonneg [OF p]
    show ?thesis by (simp add: nearest_binary64_minus)
  qed
qed

lemma nearest_binary64_ge_one:
  assumes "1 \<le> q"
  shows "1 \<le> nearest_binary64 q"
proof -
  have q0: "0 < q" using assms by simp
  let ?e = "floor_log2 q"
  let ?u = "pow2 (?e - 52)"
  have e: "max ?e (- 1022) = ?e" using floor_log2_lower(1) [OF assms] by simp
  have u0: "0 < ?u" by (rule pow2_pos)
  have split: "pow2 ?e = 2 ^ 52 * ?u"
    by (simp add: pow2_powi power_int_diff)
  have "2 ^ 52 * ?u \<le> q" using floor_log2_lower(2) [OF assms] split by simp
  then have "2 ^ 52 \<le> q / ?u" using u0 by (simp add: pos_le_divide_eq)
  then have "\<lfloor>(2::rat) ^ 52\<rfloor> \<le> \<lfloor>q / ?u\<rfloor>" by (rule floor_mono)
  then have "2 ^ 52 \<le> \<lfloor>q / ?u\<rfloor>" by (simp add: floor_power)
  with round_half_even_floor [of "q / ?u"] have "2 ^ 52 \<le> round_half_even (q / ?u)"
    by linarith
  then have "(of_int (2 ^ 52) :: rat) \<le> of_int (round_half_even (q / ?u))"
    by (simp only: of_int_le_iff)
  then have r: "2 ^ 52 * ?u \<le> of_int (round_half_even (q / ?u)) * ?u"
    using u0 by simp
  have "1 = pow2 0" by (simp add: pow2_def)
  also have "\<dots> \<le> pow2 ?e" by (rule pow2_mono [OF floor_log2_lower(1) [OF assms]])
  also have "\<dots> = 2 ^ 52 * ?u" by (rule split)
  also note r
  also have "of_int (round_half_even (q / ?u)) * ?u = nearest_binary64 q"
    by (simp only: nearest_binary64_pos_eq [OF q0] e)
  finally show ?thesis .
qed

lemma nearest_binary64_int_pos:
  assumes "0 < k" "k < 2 ^ 53"
  shows "nearest_binary64 (of_int k) = of_int k"
proof -
  have q1: "(1::rat) \<le> of_int k" using assms(1) by simp
  have q0: "(0::rat) < of_int k" using assms(1) by simp
  let ?e = "floor_log2 (of_int k)"
  have e0: "0 \<le> ?e" by (rule floor_log2_lower(1) [OF q1])
  have "?e = bit_length k - 1" using q1 by (simp add: floor_log2_def)
  with bit_length_le [OF assms(2)] have e52: "?e \<le> 52" by simp
  have e: "max ?e (- 1022) = ?e" using e0 by simp
  define m where "m = nat (52 - ?e)"
  have u: "pow2 (?e - 52) = 1 / 2 ^ m"
  proof (cases "?e = 52")
    case True
    then show ?thesis by (simp add: pow2_def m_def)
  next
    case False
    with e52 have "?e - 52 < 0" by simp
    then show ?thesis by (simp add: pow2_def m_def)
  qed
  have "of_int k / pow2 (?e - 52) = (of_int (k * 2 ^ m) :: rat)"
    by (simp add: u)
  then have "round_half_even (of_int k / pow2 (?e - 52)) = k * 2 ^ m"
    by (simp only: round_half_even_int)
  then show ?thesis
    by (simp add: nearest_binary64_pos_eq [OF q0] e u)
qed

lemma nearest_binary64_int:
  assumes "\<bar>k\<bar> < 2 ^ 53"
  shows "nearest_binary64 (of_int k) = of_int k"
proof -
  consider "k = 0" | "0 < k" | "k < 0" by linarith
  then show ?thesis
  proof cases
    case 1
    then show ?thesis by (simp add: nearest_binary64_def)
  next
    case 2
    with assms show ?thesis by (simp add: nearest_binary64_int_pos)
  next
    case 3
    with assms have "0 < - k" "- k < 2 ^ 53" by simp_all
    from nearest_binary64_int_pos [OF this] show ?thesis
      using nearest_binary64_minus [of "of_int k"] by simp
  qed
qed


lemma binary64_finite:
  assumes "\<bar>q\<bar> \<le> 2 ^ k" "k < 1023"
  shows "binary64 q = Finite (nearest_binary64 q)"
proof -
  have "\<bar>nearest_binary64 q\<bar> \<le> 2 ^ Suc k"
    by (rule nearest_binary64_abs_upper [OF assms(1)])
  also have "(2::rat) ^ Suc k < 2 ^ 1024"
    using assms(2) by (intro power_strict_increasing) simp_all
  also have "(2::rat) ^ 1024 = pow2 1024" by (simp only: pow2_nat [symmetric]) simp
  finally have "\<bar>nearest_binary64 q\<bar> < pow2 1024" .
  then have "nearest_binary64 q < pow2 1024" "- pow2 1024 < nearest_binary64 q"
    by (simp_all add: abs_less_iff)
  then show ?thesis by (simp add: binary64_def Let_def not_le [symmetric])
qed

lemma wrap64_range: "- (2 ^ 63) \<le> wrap64 x \<and> wrap64 x < 2 ^ 63"
proof -
  have "0 \<le> (x + 2 ^ 63) mod (2 ^ 64 :: int)" "(x + 2 ^ 63) mod 2 ^ 64 < (2 ^ 64 :: int)"
    by simp_all
  then show ?thesis unfolding wrap64_def by simp
qed

lemma wrap64_id: "- (2 ^ 63) \<le> x \<Longrightarrow> x < 2 ^ 63 \<Longrightarrow> wrap64 x = x"
  unfolding wrap64_def by (simp add: mod_pos_pos_trivial)

lemma quotient_abs_le:
  fixes a b :: rat
  assumes "1 \<le> b"
  shows "\<bar>a / b\<bar> \<le> \<bar>a\<bar>"
proof -
  have "\<bar>a / b\<bar> = \<bar>a\<bar> / b" using assms by simp
  also have "\<dots> \<le> \<bar>a\<bar> / 1" using assms by (intro divide_left_mono) simp_all
  finally show ?thesis by simp
qed

lemma true_divide_Int64:
  assumes "0 < n" "- (2 ^ 63) \<le> a" "a < 2 ^ 63"
  shows "true_divide Int64 a n
           = Inr (Finite (nearest_binary64
                            (nearest_binary64 (of_int a) / nearest_binary64 (of_int n))))"
proof -
  have "\<bar>of_int a :: rat\<bar> = of_int \<bar>a\<bar>" by simp
  also have "\<dots> \<le> of_int (2 ^ 63)" using assms(2,3) by (simp only: of_int_le_iff abs_le_iff) simp
  finally have "\<bar>of_int a :: rat\<bar> \<le> 2 ^ 63" by simp
  then have a: "\<bar>nearest_binary64 (of_int a)\<bar> \<le> 2 ^ 64"
    using nearest_binary64_abs_upper [of "of_int a" 63] by simp
  have "(1::rat) \<le> of_int n" using assms(1) by simp
  then have n: "1 \<le> nearest_binary64 (of_int n)" by (rule nearest_binary64_ge_one)
  have "\<bar>nearest_binary64 (of_int a) / nearest_binary64 (of_int n)\<bar> \<le> 2 ^ 64"
    using quotient_abs_le [OF n, of "nearest_binary64 (of_int a)"] a by simp
  then have "binary64 (nearest_binary64 (of_int a) / nearest_binary64 (of_int n))
               = Finite (nearest_binary64
                           (nearest_binary64 (of_int a) / nearest_binary64 (of_int n)))"
    using binary64_finite [of "nearest_binary64 (of_int a) / nearest_binary64 (of_int n)" 64]
    by simp
  with assms(1) show ?thesis by (simp add: true_divide_def)
qed

lemma true_divide_Int64_small:
  assumes "0 < n" "n < 2 ^ 53" "\<bar>a\<bar> < 2 ^ 53"
  shows "true_divide Int64 a n = Inr (Finite (nearest_binary64 (of_int a / of_int n)))"
proof -
  have "- (2 ^ 63) \<le> a" "a < 2 ^ 63" using assms(3) by simp_all
  from true_divide_Int64 [OF assms(1) this] show ?thesis
    using assms by (simp add: nearest_binary64_int)
qed

lemma true_divide_Object:
  assumes "0 < n" "\<bar>a\<bar> \<le> 2 ^ 1022"
  shows "true_divide Object a n = Inr (Finite (nearest_binary64 (of_int a / of_int n)))"
proof -
  have "\<bar>of_int a :: rat\<bar> = of_int \<bar>a\<bar>" by simp
  also have "\<dots> \<le> of_int (2 ^ 1022)" using assms(2) by (simp only: of_int_le_iff)
  finally have a: "\<bar>of_int a :: rat\<bar> \<le> 2 ^ 1022" by simp
  have "(1::rat) \<le> of_int n" using assms(1) by simp
  from quotient_abs_le [OF this, of "of_int a"] a
  have "\<bar>of_int a / of_int n :: rat\<bar> \<le> 2 ^ 1022" by simp
  then have "binary64 (of_int a / of_int n) = Finite (nearest_binary64 (of_int a / of_int n))"
    using binary64_finite [of "of_int a / of_int n" 1022] by simp
  with assms(1) show ?thesis by (simp add: true_divide_def)
qed

lemma true_divide_Object_cases:
  assumes "n \<noteq> 0"
  shows "true_divide Object a n = Inl OverflowError
         \<or> true_divide Object a n = Inr (Finite (nearest_binary64 (of_int a / of_int n)))"
  using assms by (simp add: true_divide_def binary64_def Let_def)

section \<open>Properties of the change summaries\<close>

lemma analyze_file_changes_int64:
  assumes "records df \<noteq> []"
    and "n = int (length (records df))"
    and "F = (\<Sum>r\<leftarrow>records df. files_changed r)"
    and "A = (\<Sum>r\<leftarrow>records df. insertions r)"
    and "D = (\<Sum>r\<leftarrow>records df. deletions r)"
    and d: "numeric_dtype df = Int64"
  shows "analyze_file_changes df
           = Inr \<lparr>total_commits = n,
                  total_files_changed = wrap64 F,
                  total_additions = wrap64 A,
                  total_deletions = wrap64 D,
                  avg_files_per_commit =
                    Finite (nearest_binary64 (nearest_binary64 (of_int (wrap64 F))
                                              / nearest_binary64 (of_int n))),
                  avg_additions_per_commit =
                    Finite (nearest_binary64 (nearest_binary64 (of_int (wrap64 A))
                                              / nearest_binary64 (of_int n))),
                  avg_deletions_per_commit =
                    Finite (nearest_binary64 (nearest_binary64 (of_int (wrap64 D))
                                              / nearest_binary64 (of_int n)))\<rparr>"
proof -
  from assms(1,2) have n: "0 < n" by simp
  note sums = assms(3-5) [symmetric] assms(2) [symmetric]
  have w: "\<And>x. true_divide Int64 (wrap64 x) n
         = Inr (Finite (nearest_binary64
                          (nearest_binary64 (of_int (wrap64 x)) / nearest_binary64 (of_int n))))"
    using wrap64_range by (intro true_divide_Int64 [OF n]) simp_all
  show ?thesis
    unfolding analyze_file_changes_def Let_def
    by (simp add: d column_sum_def sums w)
qed

lemma analyze_file_changes_exact:
  assumes "records df \<noteq> []"
    and "n = int (length (records df))"
    and "F = (\<Sum>r\<leftarrow>records df. files_changed r)"
    and "A = (\<Sum>r\<leftarrow>records df. insertions r)"
    and "D = (\<Sum>r\<leftarrow>records df. deletions r)"
    and h: "(numeric_dtype df = Int64 \<and> n < 2 ^ 53
              \<and> \<bar>F\<bar> < 2 ^ 53 \<and> \<bar>A\<bar> < 2 ^ 53 \<and> \<bar>D\<bar> < 2 ^ 53)
            \<or> (numeric_dtype df = Object
              \<and> \<bar>F\<bar> \<le> 2 ^ 1022 \<and> \<bar>A\<bar> \<le> 2 ^ 1022 \<and> \<bar>D\<bar> \<le> 2 ^ 1022)"
  shows "analyze_file_changes df
           = Inr \<lparr>total_commits = n,
                  total_files_changed = F,
                  total_additions = A,
                  total_deletions = D,
                  avg_files_per_commit = Finite (nearest_binary64 (of_int F / of_int n)),
                  avg_additions_per_commit = Finite (nearest_binary64 (of_int A / of_int n)),
                  avg_deletions_per_commit = Finite (nearest_binary64 (of_int D / of_int n))\<rparr>"
proof -
  from assms(1,2) have n: "0 < n" by simp
  note sums = assms(3-5) [symmetric] assms(2) [symmetric]
  from h show ?thesis
  proof
    assume "numeric_dtype df = Int64 \<and> n < 2 ^ 53
            \<and> \<bar>F\<bar> < 2 ^ 53 \<and> \<bar>A\<bar> < 2 ^ 53 \<and> \<bar>D\<bar> < 2 ^ 53"
    then have d: "numeric_dtype df = Int64" and n53: "n < 2 ^ 53"
      and F: "\<bar>F\<bar> < 2 ^ 53" and A: "\<bar>A\<bar> < 2 ^ 53" and D: "\<bar>D\<bar> < 2 ^ 53"
      by simp_all
    have wF: "wrap64 F = F" using F by (intro wrap64_id) simp_all
    have wA: "wrap64 A = A" using A by (intro wrap64_id) simp_all
    have wD: "wrap64 D = D" using D by (intro wrap64_id) simp_all
    show ?thesis
      unfolding analyze_file_changes_def Let_def
      by (simp add: d column_sum_def sums wF wA wD
            true_divide_Int64_small [OF n n53 F] true_divide_Int64_small [OF n n53 A]
            true_divide_Int64_small [OF n n53 D])
  next
    assume "numeric_dtype df = Object
            \<and> \<bar>F\<bar> \<le> 2 ^ 1022 \<and> \<bar>A\<bar> \<le> 2 ^ 1022 \<and> \<bar>D\<bar> \<le> 2 ^ 1022"
    then have d: "numeric_dtype df = Object"
      and F: "\<bar>F\<bar> \<le> 2 ^ 1022" and A: "\<bar>A\<bar> \<le> 2 ^ 1022" and D: "\<bar>D\<bar> \<le> 2 ^ 1022"
      by simp_all
    show ?thesis
      unfolding analyze_file_changes_def Let_def
      by (simp add: d column_sum_def sums
            true_divide_Object [OF n F] true_divide_Object [OF n A]
            true_divide_Object [OF n D])
  qed
qed

lemma analyze_file_changes_object:
  assumes "records df \<noteq> []"
    and "n = int (length (records df))"
    and "F = (\<Sum>r\<leftarrow>records df. files_changed r)"
    and "A = (\<Sum>r\<leftarrow>records df. insertions r)"
    and "D = (\<Sum>r\<leftarrow>records df. deletions r)"
    and d: "numeric_dtype df = Object"
  shows "analyze_file_changes df = Inl OverflowError
         \<or> analyze_file_changes df
           = Inr \<lparr>total_commits = n,
                  total_files_changed = F,
                  total_additions = A,
                  total_deletions = D,
                  avg_files_per_commit = Finite (nearest_binary64 (of_int F / of_int n)),
                  avg_additions_per_commit = Finite (nearest_binary64 (of_int A / of_int n)),
                  avg_deletions_per_commit = Finite (nearest_binary64 (of_int D / of_int n))\<rparr>"
proof -
  from assms(1,2) have n0: "n \<noteq> 0" by simp
  note sums = assms(3-5) [symmetric] assms(2) [symmetric]
  show ?thesis
    using true_divide_Object_cases [OF n0, of F] true_divide_Object_cases [OF n0, of A]
      true_divide_Object_cases [OF n0, of D]
    unfolding analyze_file_changes_def Let_def
    by (auto simp add: d column_sum_def sums)
qed

text \<open>
  C4, as the code has it. Let \<open>n\<close> be the number of rows of a frame with at least one
  row, and \<open>F\<close>, \<open>A\<close>, \<open>D\<close> the sums of its \<open>files_changed\<close>, \<open>insertions\<close> and
  \<open>deletions\<close> columns.

  \<^item> On \<open>int64\<close> columns \<open>analyze_file_changes\<close> always returns a summary:
    \<open>total_commits\<close> is \<open>n\<close>, each total is the column sum wrapped into the
    \<open>int64\<close> range, and each average is the binary64 quotient of the binary64
    conversions of that total and of \<open>n\<close>.
  \<^item> When \<open>n\<close> and the magnitudes of the three sums are below \<open>2 ^ 53\<close> (\<open>int64\<close>
    columns), or the magnitudes of the three sums are at most \<open>2 ^ 1022\<close> (object
    columns), the summary is returned with \<open>total_commits = n\<close>, the totals equal to
    the sums, and each average the binary64 number nearest to the sum divided by
    \<open>n\<close>.
  \<^item> On object columns the only other outcome is \<open>OverflowError\<close>.
\<close>

theorem analyze_file_changes_nonempty:
  assumes "records df \<noteq> []"
    and "n = int (length (records df))"
    and "F = (\<Sum>r\<leftarrow>records df. files_changed r)"
    and "A = (\<Sum>r\<leftarrow>records df. insertions r)"
    and "D = (\<Sum>r\<leftarrow>records df. deletions r)"
  shows "(numeric_dtype df = Int64 \<longrightarrow>
            analyze_file_changes df
              = Inr \<lparr>total_commits = n,
                     total_files_changed = wrap64 F,
                     total_additions = wrap64 A,
                     total_deletions = wrap64 D,
                     avg_files_per_commit =
                       Finite (nearest_binary64 (nearest_binary64 (of_int (wrap64 F))
                                                 / nearest_binary64 (of_int n))),
                     avg_additions_per_commit =
                       Finite (nearest_binary64 (nearest_binary64 (of_int (wrap64 A))
                                                 / nearest_binary64 (of_int n))),
                     avg_deletions_per_commit =
                       Finite (nearest_binary64 (nearest_binary64 (of_int (wrap64 D))
                                                 / nearest_binary64 (of_int n)))\<rparr>)
       \<and> ((numeric_dtype df = Int64 \<and> n < 2 ^ 53
              \<and> \<bar>F\<bar> < 2 ^ 53 \<and> \<bar>A\<bar> < 2 ^ 53 \<and> \<bar>D\<bar> < 2 ^ 53)
            \<or> (numeric_dtype df = Object
              \<and> \<bar>F\<bar> \<le> 2 ^ 1022 \<and> \<bar>A\<bar> \<le> 2 ^ 1022 \<and> \<bar>D\<bar> \<le> 2 ^ 1022) \<longrightarrow>
            analyze_file_changes df
              = Inr \<lparr>total_commits = n,
                     total_files_changed = F,
                     total_additions = A,
                     total_deletions = D,
                     avg_files_per_commit = Finite (nearest_binary64 (of_int F / of_int n)),
                     avg_additions_per_commit = Finite (nearest_binary64 (of_int A / of_int n)),
                     avg_deletions_per_commit = Finite (nearest_binary64 (of_int D / of_int n))\<rparr>)
       \<and> (numeric_dtype df = Object \<longrightarrow>
            analyze_file_changes df = Inl OverflowError
            \<or> analyze_file_changes df
              = Inr \<lparr>total_commits = n,
                     total_files_changed = F,
                     total_additions = A,
                     total_deletions = D,
                     avg_files_per_commit = Finite (nearest_binary64 (of_int F / of_int n)),
                     avg_additions_per_commit = Finite (nearest_binary64 (of_int A / of_int n)),
                     avg_deletions_per_commit = Finite (nearest_binary64 (of_int D / of_int n))\<rparr>)"
proof (intro conjI impI)
  assume "numeric_dtype df = Int64"
  with assms show "analyze_file_changes df
              = Inr \<lparr>total_commits = n,
                     total_files_changed = wrap64 F,
                     total_additions = wrap64 A,
                     total_deletions = wrap64 D,
                     avg_files_per_commit =
                       Finite (nearest_binary64 (nearest_binary64 (of_int (wrap64 F))
                                                 / nearest_binary64 (of_int n))),
                     avg_additions_per_commit =
                       Finite (nearest_binary64 (nearest_binary64 (of_int (wrap64 A))
                                                 / nearest_binary64 (of_int n))),
                     avg_deletions_per_commit =
                       Finite (nearest_binary64 (nearest_binary64 (of_int (wrap64 D))
                                                 / nearest_binary64 (of_int n)))\<rparr>"
    by (rule analyze_file_changes_int64)
next
  assume "(numeric_dtype df = Int64 \<and> n < 2 ^ 53
              \<and> \<bar>F\<bar> < 2 ^ 53 \<and> \<bar>A\<bar> < 2 ^ 53 \<and> \<bar>D\<bar> < 2 ^ 53)
            \<or> (numeric_dtype df = Object
              \<and> \<bar>F\<bar> \<le> 2 ^ 1022 \<and> \<bar>A\<bar> \<le> 2 ^ 1022 \<and> \<bar>D\<bar> \<le> 2 ^ 1022)"
  with assms show "analyze_file_changes df
              = Inr \<lparr>total_commits = n,
                     total_files_changed = F,
                     total_additions = A,
                     total_deletions = D,
                     avg_files_per_commit = Finite (nearest_binary64 (of_int F / of_int n)),
                     avg_additions_per_commit = Finite (nearest_binary64 (of_int A / of_int n)),
                     avg_deletions_per_commit = Finite (nearest_binary64 (of_int D / of_int n))\<rparr>"
    by (rule analyze_file_changes_exact)
next
  assume "numeric_dtype df = Object"
  with assms show "analyze_file_changes df = Inl OverflowError
            \<or> analyze_file_changes df
              = Inr \<lparr>total_commits = n,
                     total_files_changed = F,
                     total_additions = A,
                     total_deletions = D,
                     avg_files_per_commit = Finite (nearest_binary64 (of_int F / of_int n)),
                     avg_additions_per_commit = Finite (nearest_binary64 (of_int A / of_int n)),
                     avg_deletions_per_commit = Finite (nearest_binary64 (of_int D / of_int n))\<rparr>"
    by (rule analyze_file_changes_object)
qed

theorem analyze_file_changes_nonempty_witness:
  "records example_frame \<noteq> []
   \<and> numeric_dtype example_frame = Int64
   \<and> analyze_file_changes example_frame
       = Inr \<lparr>total_commits = 3, total_files_changed = 6, total_additions = 35,
              total_deletions = 7, avg_files_per_commit = Finite 2,
              avg_additions_per_commit = Finite (6567749456581973 / 562949953421312),
              avg_deletions_per_commit = Finite (5254199565265579 / 2251799813685248)\<rparr>
   \<and> records object_frame \<noteq> []
   \<and> numeric_dtype object_frame = Object
   \<and> analyze_file_changes object_frame
       = Inr \<lparr>total_commits = 2, total_files_changed = 3,
              total_additions = 36893488147419103232,
              total_deletions = 3, avg_files_per_commit = Finite (3 / 2),
              avg_additions_per_commit = Finite 18446744073709551616,
              avg_deletions_per_commit = Finite (3 / 2)\<rparr>"
proof -
  have q: "nearest_binary64 (of_int 6 / of_int 3) = 2"
    "nearest_binary64 (of_int 35 / of_int 3) = 6567749456581973 / 562949953421312"
    "nearest_binary64 (of_int 7 / of_int 3) = 5254199565265579 / 2251799813685248"
    "nearest_binary64 (of_int 3 / of_int 2) = 3 / 2"
    "nearest_binary64 (of_int 36893488147419103232 / of_int 2) = 18446744073709551616"
    by code_simp+
  have ne: "records example_frame \<noteq> []" and d: "numeric_dtype example_frame = Int64"
    by (simp_all add: example_frame_def)
  have n: "3 = int (length (records example_frame))"
    by (simp add: example_frame_def)
  have F: "6 = (\<Sum>r\<leftarrow>records example_frame. files_changed r)"
    and A: "35 = (\<Sum>r\<leftarrow>records example_frame. insertions r)"
    and D: "7 = (\<Sum>r\<leftarrow>records example_frame. deletions r)"
    by (simp_all add: example_frame_def example_row_def)
  have small: "(numeric_dtype example_frame = Int64 \<and> (3::int) < 2 ^ 53
              \<and> \<bar>6::int\<bar> < 2 ^ 53 \<and> \<bar>35::int\<bar> < 2 ^ 53 \<and> \<bar>7::int\<bar> < 2 ^ 53)
            \<or> (numeric_dtype example_frame = Object
              \<and> \<bar>6::int\<bar> \<le> 2 ^ 1022 \<and> \<bar>35::int\<bar> \<le> 2 ^ 1022 \<and> \<bar>7::int\<bar> \<le> 2 ^ 1022)"
    using d by simp
  have one: "analyze_file_changes example_frame
       = Inr \<lparr>total_commits = 3, total_files_changed = 6, total_additions = 35,
              total_deletions = 7, avg_files_per_commit = Finite 2,
              avg_additions_per_commit = Finite (6567749456581973 / 562949953421312),
              avg_deletions_per_commit = Finite (5254199565265579 / 2251799813685248)\<rparr>"
    using mp [OF conjunct1 [OF conjunct2 [OF analyze_file_changes_nonempty [OF ne n F A D]]] small]
    by (simp only: q)
  have ne': "records object_frame \<noteq> []" and d': "numeric_dtype object_frame = Object"
    by (simp_all add: object_frame_def)
  have n': "2 = int (length (records object_frame))"
    by (simp add: object_frame_def)
  have F': "3 = (\<Sum>r\<leftarrow>records object_frame. files_changed r)"
    and A': "36893488147419103232 = (\<Sum>r\<leftarrow>records object_frame. insertions r)"
    and D': "3 = (\<Sum>r\<leftarrow>records object_frame. deletions r)"
    by (simp_all add: object_frame_def example_row_def)
  have b: "\<bar>3::int\<bar> \<le> 2 ^ 1022" "\<bar>36893488147419103232::int\<bar> \<le> 2 ^ 1022"
    by simp_all
  have big: "(numeric_dtype object_frame = Int64 \<and> (2::int) < 2 ^ 53
              \<and> \<bar>3::int\<bar> < 2 ^ 53 \<and> \<bar>36893488147419103232::int\<bar> < 2 ^ 53 \<and> \<bar>3::int\<bar> < 2 ^ 53)
            \<or> (numeric_dtype object_frame = Object
              \<and> \<bar>3::int\<bar> \<le> 2 ^ 1022 \<and> \<bar>36893488147419103232::int\<bar> \<le> 2 ^ 1022
              \<and> \<bar>3::int\<bar> \<le> 2 ^ 1022)"
    using d' b by (intro disjI2 conjI)
  have two: "analyze_file_changes object_frame
       = Inr \<lparr>total_commits = 2, total_files_changed = 3,
              total_additions = 36893488147419103232,
              total_deletions = 3, avg_files_per_commit = Finite (3 / 2),
              avg_additions_per_commit = Finite 18446744073709551616,
              avg_deletions_per_commit = Finite (3 / 2)\<rparr>"
    using mp [OF conjunct1 [OF conjunct2 [OF analyze_file_changes_nonempty [OF ne' n' F' A' D']]] big]
    by (simp only: q)
  from ne d one ne' d' two show ?thesis by (intro conjI)
qed

text \<open>
  C4, refuted as stated. Two rows with \<open>2 ^ 62\<close> insertions each, in \<open>int64\<close> columns:
  the insertions add up to \<open>2 ^ 63\<close>, and \<open>analyze_file_changes\<close> returns
  \<open>total_additions = - 2 ^ 63\<close> and \<open>avg_additions_per_commit = - 2 ^ 62\<close>, because
  \<open>Series.sum()\<close> wraps around.
\<close>

theorem analyze_file_changes_overflow_counterexample:
  "records overflow_frame \<noteq> []
   \<and> numeric_dtype overflow_frame = Int64
   \<and> (\<Sum>r\<leftarrow>records overflow_frame. insertions r) = 9223372036854775808
   \<and> analyze_file_changes overflow_frame
       = Inr \<lparr>total_commits = 2, total_files_changed = 2,
              total_additions = - 9223372036854775808,
              total_deletions = 0, avg_files_per_commit = Finite 1,
              avg_additions_per_commit = Finite (- 4611686018427387904),
              avg_deletions_per_commit = Finite 0\<rparr>
   \<and> \<not> (\<exists>s. analyze_file_changes overflow_frame = Inr s
            \<and> total_additions s = (\<Sum>r\<leftarrow>records overflow_frame. insertions r))"
proof -
  have q: "nearest_binary64 (nearest_binary64 (of_int 2) / nearest_binary64 (of_int 2)) = 1"
    "nearest_binary64 (nearest_binary64 (of_int (- 9223372036854775808))
                       / nearest_binary64 (of_int 2)) = - 4611686018427387904"
    "nearest_binary64 (nearest_binary64 (of_int 0) / nearest_binary64 (of_int 2)) = 0"
    by code_simp+
  have w: "wrap64 2 = 2" "wrap64 9223372036854775808 = - 9223372036854775808" "wrap64 0 = 0"
    by (simp_all add: wrap64_def)
  have ne: "records overflow_frame \<noteq> []" and d: "numeric_dtype overflow_frame = Int64"
    by (simp_all add: overflow_frame_def)
  have n: "2 = int (length (records overflow_frame))"
    by (simp add: overflow_frame_def)
  have F: "2 = (\<Sum>r\<leftarrow>records overflow_frame. files_changed r)"
    and A: "9223372036854775808 = (\<Sum>r\<leftarrow>records overflow_frame. insertions r)"
    and D: "0 = (\<Sum>r\<leftarrow>records overflow_frame. deletions r)"
    by (simp_all add: overflow_frame_def example_row_def)
  have r: "analyze_file_changes overflow_frame
       = Inr \<lparr>total_commits = 2, total_files_changed = 2,
              total_additions = - 9223372036854775808,
              total_deletions = 0, avg_files_per_commit = Finite 1,
              avg_additions_per_commit = Finite (- 4611686018427387904),
              avg_deletions_per_commit = Finite 0\<rparr>"
    using analyze_file_changes_int64 [OF ne n F A D d]
    by (simp only: w q)
  have "\<not> (\<exists>s. analyze_file_changes overflow_frame = Inr s
            \<and> total_additions s = (\<Sum>r\<leftarrow>records overflow_frame. insertions r))"
    by (simp add: r A [symmetric])
  with ne d A [symmetric] r show ?thesis by (intro conjI)
qed

text \<open>
  C1. On a frame without rows \<open>analyze_file_changes\<close> divides by \<open>len(df) = 0\<close>
  unguarded. With object columns the first division raises Python's
  \<open>ZeroDivisionError\<close>; with numpy integer columns the function returns a summary
  whose three averages are \<open>nan\<close>. Neither is a typed empty-collection failure, and no
  average is defined as 0.
\<close>

theorem analyze_file_changes_empty:
  "analyze_file_changes \<lparr>numeric_dtype = Object, records = []\<rparr> = Inl ZeroDivisionError
   \<and> analyze_file_changes \<lparr>numeric_dtype = Int64, records = []\<rparr>
       = Inr \<lparr>total_commits = 0, total_files_changed = 0, total_additions = 0,
              total_deletions = 0, avg_files_per_commit = NaN,
              avg_additions_per_commit = NaN, avg_deletions_per_commit = NaN\<rparr>"
  by (simp add: analyze_file_changes_def true_divide_def column_sum_def wrap64_def)

text \<open>
  C9. When no row's \<open>author_name\<close> equals the requested name,
  \<open>get_developer_productivity\<close> returns \<open>None\<close>, the explicit not-found result; it
  raises nothing, whatever the column type, because the guard precedes the divisions.
\<close>

theorem get_developer_productivity_not_found:
  assumes "developer_name \<notin> author_name ` set (records df)"
  shows "get_developer_productivity df developer_name = Inr None"
proof -
  from assms have "filter (\<lambda>r. author_name r = developer_name) (records df) = []"
    by (auto simp: filter_empty_conv)
  then show ?thesis
    by (simp add: get_developer_productivity_def)
qed

theorem get_developer_productivity_not_found_witness:
  "''NoSuchUser'' \<notin> author_name ` set (records example_frame)
   \<and> get_developer_productivity example_frame ''NoSuchUser'' = Inr None"
proof -
  have h: "''NoSuchUser'' \<notin> author_name ` set (records example_frame)"
    by (simp add: example_frame_def example_row_def)
  from get_developer_productivity_not_found [OF h] h show ?thesis by simp
qed

section \<open>Properties of the counting and sorting steps\<close>

lemma bump_keys: "fst ` set (bump x t) = insert x (fst ` set t)"
  by (induction x t rule: bump.induct) auto

lemma bump_distinct: "distinct (map fst t) \<Longrightarrow> distinct (map fst (bump x t))"
proof (induction x t rule: bump.induct)
  case (1 x)
  then show ?case by simp
next
  case (2 x k c t)
  then show ?case
    using bump_keys [of x t] by (auto simp del: bump_keys)
qed

lemma bump_cnt: "cnt_of (bump x t) k = (if k = x then cnt_of t k + 1 else cnt_of t k)"
  by (induction x t rule: bump.induct) (auto simp: cnt_of_def)

lemma foldl_bump_keys:
  "fst ` set (foldl (\<lambda>t x. bump x t) t xs) = fst ` set t \<union> set xs"
  by (induction xs arbitrary: t) (auto simp: bump_keys)

lemma foldl_bump_distinct:
  "distinct (map fst t) \<Longrightarrow> distinct (map fst (foldl (\<lambda>t x. bump x t) t xs))"
  by (induction xs arbitrary: t) (auto simp: bump_distinct)

lemma foldl_bump_cnt:
  "cnt_of (foldl (\<lambda>t x. bump x t) t xs) k = cnt_of t k + count_list xs k"
  by (induction xs arbitrary: t) (auto simp: bump_cnt)

lemma value_count_keys: "fst ` set (value_count xs) = set xs"
  by (simp add: value_count_def foldl_bump_keys)

lemma value_count_distinct: "distinct (map fst (value_count xs))"
  by (simp add: value_count_def foldl_bump_distinct)

lemma value_count_entry:
  assumes "(k, c) \<in> set (value_count xs)"
  shows "c = count_list xs k"
proof -
  from assms value_count_distinct [of xs] have "map_of (value_count xs) k = Some c"
    by simp
  then have "cnt_of (value_count xs) k = c"
    by (simp add: cnt_of_def)
  moreover have "cnt_of (value_count xs) k = cnt_of [] k + count_list xs k"
    unfolding value_count_def by (rule foldl_bump_cnt)
  ultimately show ?thesis
    by (simp add: cnt_of_def)
qed

lemma value_count_length: "length (value_count xs) = card (set xs)"
proof -
  have "length (value_count xs) = length (map fst (value_count xs))" by simp
  also have "\<dots> = card (set (map fst (value_count xs)))"
    using value_count_distinct [of xs] by (simp only: distinct_card)
  also have "\<dots> = card (set xs)"
    using value_count_keys [of xs] by simp
  finally show ?thesis .
qed

lemma argsort_indices:
  assumes "argsort_descending srt"
  shows "set (srt cs) = {0..<length cs}"
proof -
  from assms have "mset (srt cs) = mset [0..<length cs]"
    by (simp add: argsort_descending_def)
  then have "set (srt cs) = set [0..<length cs]"
    by (rule mset_eq_setD)
  then show ?thesis by simp
qed

lemma sort_values_mset:
  assumes "argsort_descending srt"
  shows "mset (sort_values srt t) = mset t"
proof -
  from assms have "mset (srt (map snd t)) = mset [0..<length t]"
    by (simp add: argsort_descending_def)
  then have "image_mset ((!) t) (mset (srt (map snd t))) = image_mset ((!) t) (mset [0..<length t])"
    by simp
  then have "mset (map ((!) t) (srt (map snd t))) = mset (map ((!) t) [0..<length t])"
    by simp
  then show ?thesis
    by (simp add: sort_values_def map_nth)
qed

lemma sort_values_sorted:
  assumes "argsort_descending srt"
  shows "sorted_wrt (\<lambda>a b. snd b \<le> snd a) (sort_values srt t)"
proof -
  let ?cs = "map snd t"
  from assms have s: "sorted_wrt (\<lambda>i j. ?cs ! j \<le> ?cs ! i) (srt ?cs)"
    by (simp add: argsort_descending_def)
  have "sorted_wrt (\<lambda>i j. snd (t ! j) \<le> snd (t ! i)) (srt ?cs)"
  proof (rule sorted_wrt_mono_rel [OF _ s])
    fix i j assume "i \<in> set (srt ?cs)" "j \<in> set (srt ?cs)" "?cs ! j \<le> ?cs ! i"
    then show "snd (t ! j) \<le> snd (t ! i)"
      using argsort_indices [OF assms, of ?cs] by simp
  qed
  then show ?thesis
    by (simp add: sort_values_def sorted_wrt_map)
qed

lemma head_nat: "head (int n) t = take n t"
  by (simp add: head_def)

lemma count_list_map:
  "count_list (map f xs) a = length (filter (\<lambda>x. f x = a) xs)"
  by (induction xs) auto

lemma value_counts_set:
  assumes "argsort_descending srt"
  shows "set (value_counts srt xs) = set (value_count xs)"
  using mset_eq_setD [OF sort_values_mset [OF assms, of "value_count xs"]]
  by (simp add: value_counts_def)

lemma value_counts_distinct:
  assumes "argsort_descending srt"
  shows "distinct (map fst (value_counts srt xs))"
proof -
  have "mset (value_counts srt xs) = mset (value_count xs)"
    using sort_values_mset [OF assms, of "value_count xs"] by (simp add: value_counts_def)
  from arg_cong [OF this, of "image_mset fst"]
  have "mset (map fst (value_counts srt xs)) = mset (map fst (value_count xs))"
    by simp
  from mset_eq_imp_distinct_iff [OF this] show ?thesis
    using value_count_distinct [of xs] by simp
qed

lemma value_counts_length:
  assumes "argsort_descending srt"
  shows "length (value_counts srt xs) = card (set xs)"
proof -
  have "size (mset (value_counts srt xs)) = size (mset (value_count xs))"
    using sort_values_mset [OF assms, of "value_count xs"] by (simp add: value_counts_def)
  then show ?thesis by (simp add: value_count_length)
qed

lemma sort_index_value_counts:
  fixes xs :: "'a::linorder list"
  assumes "argsort_descending srt"
  shows "sort_index (value_counts srt xs)
           = map (\<lambda>k. (k, count_list xs k)) (sorted_list_of_set (set xs))"
proof -
  let ?r = "sort_index (value_counts srt xs)"
  have set_r: "set ?r = set (value_count xs)"
    using value_counts_set [OF assms, of xs] by (simp add: sort_index_def)
  have entries: "\<forall>e\<in>set ?r. e = (fst e, count_list xs (fst e))"
  proof
    fix e assume "e \<in> set ?r"
    then have "(fst e, snd e) \<in> set (value_count xs)" using set_r by simp
    then have "snd e = count_list xs (fst e)" by (rule value_count_entry)
    then show "e = (fst e, count_list xs (fst e))" by (simp add: prod_eq_iff)
  qed
  have "map (\<lambda>e. (fst e, count_list xs (fst e))) ?r = map (\<lambda>e. e) ?r"
    by (rule map_cong [OF refl]) (use entries in auto)
  then have r: "?r = map (\<lambda>k. (k, count_list xs k)) (map fst ?r)"
    by (simp add: comp_def)
  have keys_sorted: "sorted (map fst ?r)"
    by (simp add: sort_index_def)
  have keys_distinct: "distinct (map fst ?r)"
  proof -
    have "mset ?r = mset (value_counts srt xs)"
      by (simp add: sort_index_def)
    from arg_cong [OF this, of "image_mset fst"]
    have "mset (map fst ?r) = mset (map fst (value_counts srt xs))"
      by simp
    from mset_eq_imp_distinct_iff [OF this] show ?thesis
      using value_counts_distinct [OF assms, of xs] by simp
  qed
  have keys_set: "set (map fst ?r) = set xs"
    using set_r value_count_keys [of xs] by simp
  have "map fst ?r = sorted_list_of_set (set xs)"
  proof (rule sorted_distinct_set_unique [OF keys_sorted keys_distinct])
    show "sorted (sorted_list_of_set (set xs))" by simp
    show "distinct (sorted_list_of_set (set xs))" by simp
    show "set (map fst ?r) = set (sorted_list_of_set (set xs))"
      using keys_set by simp
  qed
  with r show ?thesis by simp
qed

section \<open>The contributor ranking and the hour distribution\<close>

lemma stable_argsort_ok: "argsort_descending stable_argsort"
proof -
  have "sorted_wrt (\<lambda>i j. cs ! j \<le> cs ! i) (stable_argsort cs)" for cs :: "nat list"
  proof -
    have "sorted (map (\<lambda>i. - int (cs ! i)) (stable_argsort cs))"
      unfolding stable_argsort_def by (rule sorted_sort_key)
    then show ?thesis
      by (simp add: sorted_wrt_map)
  qed
  then show ?thesis
    by (simp add: argsort_descending_def) (simp add: stable_argsort_def)
qed

lemma reversing_argsort_ok: "argsort_descending reversing_argsort"
proof -
  have "sorted_wrt (\<lambda>i j. cs ! j \<le> cs ! i) (reversing_argsort cs)" for cs :: "nat list"
  proof -
    have "sorted (map (\<lambda>i. cs ! i) (sort_key (\<lambda>i. cs ! i) [0..<length cs]))"
      by (rule sorted_sort_key)
    then have "sorted_wrt (\<lambda>i j. cs ! i \<le> cs ! j) (sort_key (\<lambda>i. cs ! i) [0..<length cs])"
      by (simp add: sorted_wrt_map)
    then show ?thesis
      by (simp add: reversing_argsort_def sorted_wrt_rev)
  qed
  then show ?thesis
    by (simp add: argsort_descending_def) (simp add: reversing_argsort_def)
qed

lemma value_counts_sorted:
  assumes "argsort_descending srt"
  shows "sorted_wrt (\<lambda>a b. snd b \<le> snd a) (value_counts srt xs)"
  unfolding value_counts_def by (rule sort_values_sorted [OF assms])

lemma value_counts_entry:
  assumes "argsort_descending srt" and "(k, c) \<in> set (value_counts srt xs)"
  shows "c = count_list xs k"
  using assms value_counts_set [OF assms(1), of xs] value_count_entry [of k c xs] by simp

lemma value_counts_keys:
  assumes "argsort_descending srt"
  shows "fst ` set (value_counts srt xs) = set xs"
  using value_counts_set [OF assms, of xs] value_count_keys [of xs] by simp

text \<open>
  C5 (as amended). Whatever sorting routine \<open>value_counts\<close> runs, as long as it sorts
  the counts in descending order: for every collection and every limit (a count: with a
  negative argument \<open>head\<close> drops rows from the end instead),
  \<open>analyze_developer_activity\<close> returns at most \<open>limit\<close> entries and at most as many
  as there are distinct author names; the entries are in non-increasing order of count;
  no author is listed twice; each listed count is the number of commits whose
  \<open>author_name\<close> is exactly that string, and is positive; and an author is left out
  only when the table is full, with a count no larger than any listed one. Nothing is
  said about the order among equal counts.
\<close>

theorem analyze_developer_activity_ranking:
  assumes "argsort_descending argsort"
  shows "let r = analyze_developer_activity argsort df (int limit);
             authors = map author_name (records df)
         in length r \<le> limit
            \<and> length r \<le> card (set authors)
            \<and> sorted_wrt (\<lambda>a b. snd b \<le> snd a) r
            \<and> distinct (map fst r)
            \<and> (\<forall>(a, c)\<in>set r.
                  c = length (filter (\<lambda>row. author_name row = a) (records df)) \<and> 0 < c)
            \<and> (\<forall>a\<in>set authors. a \<notin> fst ` set r \<longrightarrow>
                  length r = limit \<and> (\<forall>(b, c)\<in>set r. count_list authors a \<le> c))"
proof -
  define authors where "authors = map author_name (records df)"
  define full where "full = value_counts argsort authors"
  define r where "r = analyze_developer_activity argsort df (int limit)"
  have r: "r = take limit full"
    by (simp add: r_def full_def authors_def analyze_developer_activity_def head_nat)
  have full_sorted: "sorted_wrt (\<lambda>a b. snd b \<le> snd a) full"
    unfolding full_def by (rule value_counts_sorted [OF assms])
  have c1: "length r \<le> limit" by (simp add: r)
  have c2: "length r \<le> card (set authors)"
    using value_counts_length [OF assms, of authors] by (simp add: r full_def)
  have c3: "sorted_wrt (\<lambda>a b. snd b \<le> snd a) r"
    unfolding r by (rule sorted_wrt_take [OF full_sorted])
  have c4: "distinct (map fst r)"
    using value_counts_distinct [OF assms, of authors]
    by (simp add: r full_def take_map [symmetric] del: take_map)
  have sub: "set r \<subseteq> set full"
    unfolding r by (rule set_take_subset)
  have c5: "\<forall>(a, c)\<in>set r.
              c = length (filter (\<lambda>row. author_name row = a) (records df)) \<and> 0 < c"
  proof safe
    fix a c assume "(a, c) \<in> set r"
    with sub have m: "(a, c) \<in> set full" by blast
    then have c: "c = count_list authors a"
      unfolding full_def by (rule value_counts_entry [OF assms])
    then show "c = length (filter (\<lambda>row. author_name row = a) (records df))"
      by (simp add: authors_def count_list_map)
    from m have "a \<in> fst ` set full" by force
    then have "a \<in> set authors"
      using value_counts_keys [OF assms, of authors] by (simp add: full_def)
    then show "0 < c"
      using c count_list_0_iff [of authors a] by simp
  qed
  have c6: "\<forall>a\<in>set authors. a \<notin> fst ` set r \<longrightarrow>
              length r = limit \<and> (\<forall>(b, c)\<in>set r. count_list authors a \<le> c)"
  proof (intro ballI impI)
    fix a assume a: "a \<in> set authors" "a \<notin> fst ` set r"
    from a(1) have "a \<in> fst ` set full"
      using value_counts_keys [OF assms, of authors] by (simp add: full_def)
    then obtain ca where ca: "(a, ca) \<in> set full" by force
    then have cnt: "ca = count_list authors a"
      unfolding full_def by (rule value_counts_entry [OF assms])
    have split: "full = take limit full @ drop limit full" by simp
    from a(2) have "(a, ca) \<notin> set (take limit full)"
      unfolding r by force
    with ca have d: "(a, ca) \<in> set (drop limit full)"
      by (metis split Un_iff set_append)
    then have "drop limit full \<noteq> []" by auto
    then have len: "length r = limit" by (simp add: r)
    from full_sorted have "sorted_wrt (\<lambda>a b. snd b \<le> snd a) (take limit full @ drop limit full)"
      by simp
    then have "\<forall>x\<in>set (take limit full). \<forall>y\<in>set (drop limit full). snd y \<le> snd x"
      by (simp only: sorted_wrt_append) blast
    with d have "\<forall>x\<in>set r. ca \<le> snd x"
      unfolding r by force
    with len cnt show "length r = limit \<and> (\<forall>(b, c)\<in>set r. count_list authors a \<le> c)"
      by auto
  qed
  from c1 c2 c3 c4 c5 c6 show ?thesis
    unfolding Let_def r_def authors_def by blast
qed

theorem analyze_developer_activity_ranking_witness:
  "argsort_descending stable_argsort
   \<and> analyze_developer_activity stable_argsort example_frame (int 1) = [(''Alice'', 2)]
   \<and> (let r = analyze_developer_activity stable_argsort example_frame (int 1);
           authors = map author_name (records example_frame)
       in length r \<le> 1
          \<and> length r \<le> card (set authors)
          \<and> sorted_wrt (\<lambda>a b. snd b \<le> snd a) r
          \<and> distinct (map fst r)
          \<and> (\<forall>(a, c)\<in>set r.
                c = length (filter (\<lambda>row. author_name row = a) (records example_frame)) \<and> 0 < c)
          \<and> (\<forall>a\<in>set authors. a \<notin> fst ` set r \<longrightarrow>
                length r = 1 \<and> (\<forall>(b, c)\<in>set r. count_list authors a \<le> c)))"
proof -
  have v: "analyze_developer_activity stable_argsort example_frame (int 1) = [(''Alice'', 2)]"
    by (simp add: analyze_developer_activity_def example_frame_def example_row_def
        value_counts_def value_count_def sort_values_def stable_argsort_def head_def)
  from analyze_developer_activity_ranking [OF stable_argsort_ok, of example_frame 1]
    stable_argsort_ok v
  show ?thesis by blast
qed

text \<open>
  C5, refuted as stated. The claim also fixes the order among equal counts (first met,
  first listed). The code does not: \<open>value_counts\<close> sorts the counts with
  \<open>sort_values\<close> and its default algorithm, which is not stable. Ten commits by
  Alice, Bob, Carol and Dave, met in this order, with 2, 2, 3 and 3 commits: a descending
  sort of the counts may list Dave before Carol and Bob before Alice, so the order of
  first appearance does not follow from what the sorting routine guarantees.
\<close>

theorem analyze_developer_activity_ties_counterexample:
  "map author_name (records ten_frame)
     = [''Alice'', ''Bob'', ''Carol'', ''Dave'', ''Alice'', ''Bob'', ''Carol'', ''Dave'',
        ''Carol'', ''Dave'']
   \<and> \<not> (\<forall>argsort. argsort_descending argsort \<longrightarrow>
            ties_first_encountered (map author_name (records ten_frame))
              (analyze_developer_activity argsort ten_frame 10))"
proof -
  have a: "map author_name (records ten_frame)
     = [''Alice'', ''Bob'', ''Carol'', ''Dave'', ''Alice'', ''Bob'', ''Carol'', ''Dave'',
        ''Carol'', ''Dave'']"
    by (simp add: ten_frame_def example_row_def)
  have c: "value_count [''Alice'', ''Bob'', ''Carol'', ''Dave'', ''Alice'', ''Bob'', ''Carol'',
        ''Dave'', ''Carol'', ''Dave'']
       = [(''Alice'', 2), (''Bob'', 2), (''Carol'', 3), (''Dave'', 3)]"
    by (simp add: value_count_def)
  have s: "reversing_argsort [2, 2, 3, 3] = [3, 2, 1, 0]"
    by (simp add: reversing_argsort_def upt_rec)
  have v: "analyze_developer_activity reversing_argsort ten_frame 10
             = [(''Dave'', 3), (''Carol'', 3), (''Bob'', 2), (''Alice'', 2)]"
    by (simp add: analyze_developer_activity_def a value_counts_def c sort_values_def s head_def)
  have n: "\<not> ties_first_encountered
              [''Alice'', ''Bob'', ''Carol'', ''Dave'', ''Alice'', ''Bob'', ''Carol'', ''Dave'',
               ''Carol'', ''Dave'']
              [(''Dave'', 3), (''Carol'', 3), (''Bob'', 2), (''Alice'', 2)]"
    by (simp add: ties_first_encountered_def first_index_def)
  have "\<not> (\<forall>argsort. argsort_descending argsort \<longrightarrow>
            ties_first_encountered (map author_name (records ten_frame))
              (analyze_developer_activity argsort ten_frame 10))"
  proof
    assume "\<forall>argsort. argsort_descending argsort \<longrightarrow>
            ties_first_encountered (map author_name (records ten_frame))
              (analyze_developer_activity argsort ten_frame 10)"
    then have "argsort_descending reversing_argsort \<longrightarrow>
            ties_first_encountered (map author_name (records ten_frame))
              (analyze_developer_activity reversing_argsort ten_frame 10)"
      by (rule spec)
    then have "ties_first_encountered (map author_name (records ten_frame))
              (analyze_developer_activity reversing_argsort ten_frame 10)"
      using reversing_argsort_ok by (rule mp)
    with n show False by (simp only: a v)
  qed
  with a show ?thesis by (rule conjI)
qed

text \<open>
  C6. For the unit \<open>hour\<close>, \<open>analyze_commit_time_distribution\<close> returns one bucket for
  each hour that occurs among the timestamps and no other, in ascending order of the
  hour, each with the number of commits at that hour. Over commits at the hours 9, 9 and
  14 the buckets are (9, 2) and (14, 1).
\<close>

theorem hour_distribution:
  assumes "argsort_descending argsort"
  shows "analyze_commit_time_distribution argsort df ''hour''
           = Inr (map (\<lambda>h. (IntLabel h, count_list (map (\<lambda>r. dt_hour (datetime r)) (records df)) h))
                    (sorted_list_of_set (set (map (\<lambda>r. dt_hour (datetime r)) (records df)))))"
  by (simp add: analyze_commit_time_distribution_def sort_index_value_counts [OF assms] comp_def)

theorem hour_distribution_witness:
  "argsort_descending stable_argsort
   \<and> map (\<lambda>r. dt_hour (datetime r)) (records hours_frame) = [9, 9, 14]
   \<and> analyze_commit_time_distribution stable_argsort hours_frame ''hour''
       = Inr [(IntLabel 9, 2), (IntLabel 14, 1)]"
proof -
  have h: "map (\<lambda>r. dt_hour (datetime r)) (records hours_frame) = [9, 9, 14]"
    by (simp add: hours_frame_def example_row_def dt_hour_def)
  have s: "sorted_list_of_set (set [9, 9, 14 :: int]) = [9, 14]"
    by (simp add: sorted_list_of_set_sort_remdups)
  from hour_distribution [OF stable_argsort_ok, of hours_frame]
  have "analyze_commit_time_distribution stable_argsort hours_frame ''hour''
          = Inr (map (\<lambda>h. (IntLabel h, count_list [9, 9, 14] h)) (sorted_list_of_set (set [9, 9, 14])))"
    by (simp only: h)
  then have "analyze_commit_time_distribution stable_argsort hours_frame ''hour''
               = Inr [(IntLabel 9, 2), (IntLabel 14, 1)]"
    by (simp only: s) simp
  with stable_argsort_ok h show ?thesis by simp
qed

section \<open>Properties of the extraction loop\<close>

lemma rows_of_length: "rows_of cs = Inr rs \<Longrightarrow> length rs = length cs"
  by (induction cs arbitrary: rs) (auto split: sum.splits)

lemma commit_data_sha: "commit_data c = Inr d \<Longrightarrow> sha d = hexsha c"
  by (auto simp: commit_data_def commit_record_def Let_def split: sum.splits)


lemma rows_of_sha: "rows_of cs = Inr rs \<Longrightarrow> map sha rs = map hexsha cs"
  by (induction cs arbitrary: rs) (auto split: sum.splits dest: commit_data_sha)


lemma loop_unlimited:
  "\<not> (\<exists>k. limit = Some k \<and> k \<noteq> 0) \<Longrightarrow>
   iter_commits_loop limit cs acc n
     = (case rows_of cs of Inl e \<Rightarrow> Inl e | Inr rs \<Rightarrow> Inr (acc @ rs))"
proof (induction cs arbitrary: acc n)
  case Nil
  then show ?case by simp
next
  case (Cons c cs)
  from Cons.prems have nr: "\<not> limit_reached limit n"
    by (cases limit) auto
  show ?case
    using nr Cons.IH [OF Cons.prems]
    by (simp split: sum.splits)
qed

lemma loop_limited:
  "0 < k \<Longrightarrow> n \<le> k \<Longrightarrow>
   iter_commits_loop (Some k) cs acc n
     = (case rows_of (take (nat (k - n)) cs) of Inl e \<Rightarrow> Inl e | Inr rs \<Rightarrow> Inr (acc @ rs))"
proof (induction cs arbitrary: acc n)
  case Nil
  then show ?case by simp
next
  case (Cons c cs)
  show ?case
  proof (cases "n = k")
    case True
    with Cons.prems show ?thesis by simp
  next
    case False
    with Cons.prems have lt: "n < k" by simp
    then have tk: "nat (k - n) = Suc (nat (k - (n + 1)))" by simp
    from lt Cons.prems have nr: "\<not> limit_reached (Some k) n" by simp
    from lt have le: "n + 1 \<le> k" by simp
    show ?thesis
      using nr Cons.IH [OF Cons.prems(1) le]
      by (simp add: tk split: sum.splits del: limit_reached.simps)
  qed
qed


section \<open>Properties of get_commit_history\<close>

text \<open>
  What the loop returns, by the value of \<open>limit\<close>: without a limit the rows of the whole
  history, with a positive limit the rows of its first \<open>limit\<close> commits. These are
  the cases in which the function does what its documentation says.
\<close>

lemma get_commit_history_unlimited: "get_commit_history repo None = rows_of repo"
  by (simp add: get_commit_history_def loop_unlimited split: sum.splits)

lemma get_commit_history_zero: "get_commit_history repo (Some 0) = rows_of repo"
  by (simp add: get_commit_history_def loop_unlimited split: sum.splits)

lemma get_commit_history_limited:
  "0 < k \<Longrightarrow> get_commit_history repo (Some k) = rows_of (take (nat k) repo)"
  by (simp add: get_commit_history_def loop_limited split: sum.splits)

lemma rows_of_total:
  "\<forall>c\<in>set cs. \<exists>st. stats c = Inr st \<Longrightarrow> \<exists>rows. rows_of cs = Inr rows"
  by (induction cs) (auto simp: commit_data_def)

text \<open>
  C10. With \<open>limit = 0\<close> the test \<open>limit and count >= limit\<close> is false at every
  commit, so the call behaves as the call without a limit: whenever it returns, it
  returns one row per commit of the history, in order, and it does return when the
  statistics of every commit can be computed. For a history that is not empty the result
  is therefore not empty.
\<close>

theorem get_commit_history_limit_zero:
  "get_commit_history repo (Some 0) = get_commit_history repo None
   \<and> (\<forall>rows. get_commit_history repo (Some 0) = Inr rows \<longrightarrow> map sha rows = map hexsha repo)
   \<and> ((\<forall>c\<in>set repo. \<exists>st. stats c = Inr st) \<longrightarrow>
        (\<exists>rows. get_commit_history repo (Some 0) = Inr rows \<and> length rows = length repo))"
proof (intro conjI allI impI)
  show "get_commit_history repo (Some 0) = get_commit_history repo None"
    by (simp only: get_commit_history_zero get_commit_history_unlimited)
next
  fix rows assume "get_commit_history repo (Some 0) = Inr rows"
  then have "rows_of repo = Inr rows" by (simp only: get_commit_history_zero)
  then show "map sha rows = map hexsha repo" by (rule rows_of_sha)
next
  assume "\<forall>c\<in>set repo. \<exists>st. stats c = Inr st"
  then obtain rows where r: "rows_of repo = Inr rows"
    using rows_of_total by blast
  then have "length rows = length repo" by (rule rows_of_length)
  with r show "\<exists>rows. get_commit_history repo (Some 0) = Inr rows \<and> length rows = length repo"
    by (simp add: get_commit_history_zero)
qed

theorem get_commit_history_limit_zero_witness:
  "get_commit_history example_repo (Some 0) = get_commit_history example_repo None
   \<and> (\<exists>rows. get_commit_history example_repo (Some 0) = Inr rows
         \<and> length rows = 3 \<and> map sha rows = [''c3'', ''c2'', ''c1''])"
proof -
  have h: "\<forall>c\<in>set example_repo. \<exists>st. stats c = Inr st"
    by (simp add: example_repo_def example_commit_def full_stats_def bare_stats_def)
  note t = get_commit_history_limit_zero [of example_repo]
  from t have t1: "get_commit_history example_repo (Some 0) = get_commit_history example_repo None"
    by (rule conjunct1)
  from t have t2: "\<forall>rows. get_commit_history example_repo (Some 0) = Inr rows
                     \<longrightarrow> map sha rows = map hexsha example_repo"
    by (rule conjunct1 [OF conjunct2])
  from t have t3: "(\<forall>c\<in>set example_repo. \<exists>st. stats c = Inr st) \<longrightarrow>
        (\<exists>rows. get_commit_history example_repo (Some 0) = Inr rows
           \<and> length rows = length example_repo)"
    by (rule conjunct2 [OF conjunct2])
  from t3 h obtain rows where
    r: "get_commit_history example_repo (Some 0) = Inr rows" "length rows = length example_repo"
    by (elim impE exE conjE)
  from t2 r(1) have "map sha rows = map hexsha example_repo"
    by (elim allE impE)
  then have m: "map sha rows = [''c3'', ''c2'', ''c1'']"
    by (simp add: example_repo_def example_commit_def)
  from r(2) have l: "length rows = 3" by (simp add: example_repo_def)
  from r(1) l m have "\<exists>rows. get_commit_history example_repo (Some 0) = Inr rows
         \<and> length rows = 3 \<and> map sha rows = [''c3'', ''c2'', ''c1'']"
    by (intro exI conjI)
  with t1 show ?thesis by (intro conjI)
qed

text \<open>
  C8. The claim bounds the number of records by every given limit. At \<open>limit = 0\<close> the
  code returns the whole history: the three commits of the example repository, not at
  most zero records.
\<close>

theorem get_commit_history_zero_limit_exceeded:
  "\<exists>rows. get_commit_history example_repo (Some 0) = Inr rows
      \<and> map sha rows = [''c3'', ''c2'', ''c1''] \<and> \<not> int (length rows) \<le> 0"
  by (simp add: get_commit_history_def example_repo_def example_commit_def full_stats_def
      bare_stats_def commit_data_def commit_record_def)

section \<open>Properties of the API extraction\<close>






section \<open>Timestamps of the extracted records\<close>





lemma example_fetch:
  "\<exists>api_rows. fetch_commits_from_github_api example_strptime example_requests_get 100 5 = Inr api_rows
      \<and> map api_sha api_rows = [JStr ''c3'', JStr ''c1'']
      \<and> map api_datetime api_rows = [1672737300000000, 1672567200000000]"
  by (simp add: fetch_commits_from_github_api_def example_requests_get_def example_page_def
      full_payload_def null_stats_payload_def bare_payload_items_def payload_def person_def
      api_commit_data_def getitem3_def ebind_def example_strptime_def replace_tzinfo_None_def
      upto_rec1)


section \<open>Commits without usable statistics\<close>

lemma commit_data_fields:
  assumes "commit_data c = Inr d"
  shows "\<exists>st. stats c = Inr st
           \<and> sha d = hexsha c
           \<and> insertions d = (case map_of (total st) ''insertions'' of None \<Rightarrow> 0 | Some v \<Rightarrow> v)
           \<and> deletions d = (case map_of (total st) ''deletions'' of None \<Rightarrow> 0 | Some v \<Rightarrow> v)
           \<and> lines_changed d = (case map_of (total st) ''lines'' of None \<Rightarrow> 0 | Some v \<Rightarrow> v)
           \<and> files_changed d = int (length (files st))"
  using assms
  by (auto simp: commit_data_def commit_record_def Let_def dict_get_def split: sum.splits)

lemma rows_of_fields:
  "rows_of cs = Inr rows \<Longrightarrow>
   list_all2 (\<lambda>c r. \<exists>st. stats c = Inr st
           \<and> sha r = hexsha c
           \<and> insertions r = (case map_of (total st) ''insertions'' of None \<Rightarrow> 0 | Some v \<Rightarrow> v)
           \<and> deletions r = (case map_of (total st) ''deletions'' of None \<Rightarrow> 0 | Some v \<Rightarrow> v)
           \<and> lines_changed r = (case map_of (total st) ''lines'' of None \<Rightarrow> 0 | Some v \<Rightarrow> v)
           \<and> files_changed r = int (length (files st))) cs rows"
proof (induction cs arbitrary: rows)
  case Nil
  then show ?case by simp
next
  case (Cons c cs)
  from Cons.prems obtain d ds where d: "commit_data c = Inr d" and ds: "rows_of cs = Inr ds"
    and r: "rows = d # ds"
    by (auto split: sum.splits)
  from commit_data_fields [OF d] Cons.IH [OF ds] r show ?case by simp
qed

lemma get_commit_history_fields:
  assumes "\<forall>c\<in>set (case limit of None \<Rightarrow> repo | Some k \<Rightarrow> take (nat k) repo).
             \<exists>st. stats c = Inr st"
    and "limit = None \<or> (\<exists>k. limit = Some k \<and> 0 < k)"
  shows "\<exists>rows. get_commit_history repo limit = Inr rows
           \<and> list_all2 (\<lambda>c r. \<exists>st. stats c = Inr st
                 \<and> sha r = hexsha c
                 \<and> insertions r = (case map_of (total st) ''insertions'' of None \<Rightarrow> 0 | Some v \<Rightarrow> v)
                 \<and> deletions r = (case map_of (total st) ''deletions'' of None \<Rightarrow> 0 | Some v \<Rightarrow> v)
                 \<and> lines_changed r = (case map_of (total st) ''lines'' of None \<Rightarrow> 0 | Some v \<Rightarrow> v)
                 \<and> files_changed r = int (length (files st)))
               (case limit of None \<Rightarrow> repo | Some k \<Rightarrow> take (nat k) repo) rows"
proof -
  let ?cs = "case limit of None \<Rightarrow> repo | Some k \<Rightarrow> take (nat k) repo"
  have g: "get_commit_history repo limit = rows_of ?cs"
    using assms(2) by (auto simp: get_commit_history_unlimited get_commit_history_limited)
  from rows_of_total [OF assms(1)] obtain rows where r: "rows_of ?cs = Inr rows" ..
  from rows_of_fields [OF r] r g show ?thesis by simp
qed

lemma api_commit_data_bare:
  assumes "map_of kvs ''commit'' = Some (JDict ckvs)"
    and "map_of ckvs ''author'' = Some (JDict akvs)"
    and "map_of ckvs ''committer'' = Some (JDict pkvs)"
    and "map_of ckvs ''message'' = Some (JStr m)"
    and "map_of akvs ''name'' = Some an" and "map_of akvs ''email'' = Some ae"
    and "map_of pkvs ''name'' = Some cn" and "map_of pkvs ''email'' = Some ce"
    and "map_of pkvs ''date'' = Some (JStr date)" and "strptime date = Inr t"
    and "map_of kvs ''sha'' = Some h"
    and "map_of kvs ''parents'' = Some (JList ps)"
    and "map_of kvs ''stats'' = None" and "map_of kvs ''files'' = None"
  shows "api_commit_data strptime (JDict kvs)
           = Inr \<lparr>api_sha = h, api_author_name = an, api_author_email = ae,
                  api_committer_name = cn, api_committer_email = ce,
                  api_datetime = t, api_message = strip m,
                  api_insertions = JInt 0, api_deletions = JInt 0,
                  api_lines_changed = JInt 0, api_files_changed = 0,
                  api_parents = int (length ps)\<rparr>"
  using assms
  by (simp add: api_commit_data_def getitem3_def ebind_def replace_tzinfo_None_def)

lemma page_commits_loop_result:
  assumes "\<forall>item\<in>set items. (\<exists>d. api_commit_data strptime item = Inr d)
                               \<or> (\<exists>h. getitem item ''sha'' = Inr h)"
  shows "page_commits_loop strptime items commits
           = Inr (commits @ concat (map (\<lambda>item. case api_commit_data strptime item of
                                                  Inl e \<Rightarrow> [] | Inr d \<Rightarrow> [d]) items))"
  using assms
proof (induction items arbitrary: commits)
  case Nil
  then show ?case by simp
next
  case (Cons item items)
  from Cons.prems have rest: "\<forall>item\<in>set items. (\<exists>d. api_commit_data strptime item = Inr d)
                               \<or> (\<exists>h. getitem item ''sha'' = Inr h)"
    by simp
  show ?case
  proof (cases "api_commit_data strptime item")
    case (Inr d)
    with Cons.IH [OF rest, of "commits @ [d]"] show ?thesis by simp
  next
    case (Inl e)
    with Cons.prems obtain h where "getitem item ''sha'' = Inr h" by auto
    with Inl Cons.IH [OF rest, of commits] show ?thesis by simp
  qed
qed


text \<open>
  C2 (as amended). When the statistics of a commit are there and lack an entry, the
  record is still emitted with that numeric field at 0, and extraction goes on.

  \<^item> \<open>get_commit_history\<close>, without a limit or with a positive limit \<open>k\<close>: when
    the statistics of the commits visited (all of them, or the first \<open>k\<close>) can be
    computed, the call returns one record per visited commit, in order; its
    \<open>insertions\<close>, \<open>deletions\<close> and \<open>lines_changed\<close> are the \<open>insertions\<close>,
    \<open>deletions\<close> and \<open>lines\<close> entries of that commit's totals, 0 where the entry is
    missing, and its \<open>files_changed\<close> is the number of per-file entries.
  \<^item> \<open>fetch_commits_from_github_api\<close>: a payload that has its \<open>sha\<close>, a
    \<open>parents\<close> list, the names and addresses of author and committer, a message and
    a committer date that parses, and has no \<open>stats\<close> and no \<open>files\<close> member, is
    appended with 0 in the four numeric fields, and the loop goes on.
  \<^item> A payload whose processing raises is left out and the loop goes on, provided the
    payload has a \<open>sha\<close> member for the handler to print; without one the handler
    itself raises and the call ends.
  \<^item> So a page in which every payload is processed or has a \<open>sha\<close> yields the
    records of the payloads that are processed, in order.
\<close>

theorem extraction_statistics_defaults:
  "((\<forall>c\<in>set (case limit of None \<Rightarrow> repo | Some k \<Rightarrow> take (nat k) repo). \<exists>st. stats c = Inr st)
      \<and> (limit = None \<or> (\<exists>k. limit = Some k \<and> 0 < k)) \<longrightarrow>
      (\<exists>rows. get_commit_history repo limit = Inr rows
          \<and> list_all2 (\<lambda>c r. \<exists>st. stats c = Inr st
                 \<and> sha r = hexsha c
                 \<and> insertions r = (case map_of (total st) ''insertions'' of None \<Rightarrow> 0 | Some v \<Rightarrow> v)
                 \<and> deletions r = (case map_of (total st) ''deletions'' of None \<Rightarrow> 0 | Some v \<Rightarrow> v)
                 \<and> lines_changed r = (case map_of (total st) ''lines'' of None \<Rightarrow> 0 | Some v \<Rightarrow> v)
                 \<and> files_changed r = int (length (files st)))
               (case limit of None \<Rightarrow> repo | Some k \<Rightarrow> take (nat k) repo) rows))
   \<and> (map_of kvs ''commit'' = Some (JDict ckvs)
      \<and> map_of ckvs ''author'' = Some (JDict akvs)
      \<and> map_of ckvs ''committer'' = Some (JDict pkvs)
      \<and> map_of ckvs ''message'' = Some (JStr m)
      \<and> map_of akvs ''name'' = Some an \<and> map_of akvs ''email'' = Some ae
      \<and> map_of pkvs ''name'' = Some cn \<and> map_of pkvs ''email'' = Some ce
      \<and> map_of pkvs ''date'' = Some (JStr date) \<and> strptime date = Inr t
      \<and> map_of kvs ''sha'' = Some h
      \<and> map_of kvs ''parents'' = Some (JList ps)
      \<and> map_of kvs ''stats'' = None \<and> map_of kvs ''files'' = None \<longrightarrow>
      page_commits_loop strptime (JDict kvs # rest) commits
        = page_commits_loop strptime rest
            (commits @ [\<lparr>api_sha = h, api_author_name = an, api_author_email = ae,
                          api_committer_name = cn, api_committer_email = ce,
                          api_datetime = t, api_message = strip m,
                          api_insertions = JInt 0, api_deletions = JInt 0,
                          api_lines_changed = JInt 0, api_files_changed = 0,
                          api_parents = int (length ps)\<rparr>]))
   \<and> (api_commit_data strptime item = Inl e \<and> getitem item ''sha'' = Inr h' \<longrightarrow>
      page_commits_loop strptime (item # rest) commits
        = page_commits_loop strptime rest commits)
   \<and> ((\<forall>item\<in>set items. (\<exists>d. api_commit_data strptime item = Inr d)
                          \<or> (\<exists>h. getitem item ''sha'' = Inr h)) \<longrightarrow>
      page_commits_loop strptime items commits
        = Inr (commits @ concat (map (\<lambda>item. case api_commit_data strptime item of
                                               Inl e \<Rightarrow> [] | Inr d \<Rightarrow> [d]) items)))"
proof (intro conjI impI)
  assume a: "(\<forall>c\<in>set (case limit of None \<Rightarrow> repo | Some k \<Rightarrow> take (nat k) repo). \<exists>st. stats c = Inr st)
      \<and> (limit = None \<or> (\<exists>k. limit = Some k \<and> 0 < k))"
  then have s: "\<forall>c\<in>set (case limit of None \<Rightarrow> repo | Some k \<Rightarrow> take (nat k) repo).
                  \<exists>st. stats c = Inr st"
    and l: "limit = None \<or> (\<exists>k. limit = Some k \<and> 0 < k)"
    by (rule conjunct1, rule conjunct2)
  from s l show "\<exists>rows. get_commit_history repo limit = Inr rows
          \<and> list_all2 (\<lambda>c r. \<exists>st. stats c = Inr st
                 \<and> sha r = hexsha c
                 \<and> insertions r = (case map_of (total st) ''insertions'' of None \<Rightarrow> 0 | Some v \<Rightarrow> v)
                 \<and> deletions r = (case map_of (total st) ''deletions'' of None \<Rightarrow> 0 | Some v \<Rightarrow> v)
                 \<and> lines_changed r = (case map_of (total st) ''lines'' of None \<Rightarrow> 0 | Some v \<Rightarrow> v)
                 \<and> files_changed r = int (length (files st)))
               (case limit of None \<Rightarrow> repo | Some k \<Rightarrow> take (nat k) repo) rows"
    by (rule get_commit_history_fields)
next
  assume "map_of kvs ''commit'' = Some (JDict ckvs)
      \<and> map_of ckvs ''author'' = Some (JDict akvs)
      \<and> map_of ckvs ''committer'' = Some (JDict pkvs)
      \<and> map_of ckvs ''message'' = Some (JStr m)
      \<and> map_of akvs ''name'' = Some an \<and> map_of akvs ''email'' = Some ae
      \<and> map_of pkvs ''name'' = Some cn \<and> map_of pkvs ''email'' = Some ce
      \<and> map_of pkvs ''date'' = Some (JStr date) \<and> strptime date = Inr t
      \<and> map_of kvs ''sha'' = Some h
      \<and> map_of kvs ''parents'' = Some (JList ps)
      \<and> map_of kvs ''stats'' = None \<and> map_of kvs ''files'' = None"
  then have h: "map_of kvs ''commit'' = Some (JDict ckvs)"
      "map_of ckvs ''author'' = Some (JDict akvs)"
      "map_of ckvs ''committer'' = Some (JDict pkvs)"
      "map_of ckvs ''message'' = Some (JStr m)"
      "map_of akvs ''name'' = Some an" "map_of akvs ''email'' = Some ae"
      "map_of pkvs ''name'' = Some cn" "map_of pkvs ''email'' = Some ce"
      "map_of pkvs ''date'' = Some (JStr date)" "strptime date = Inr t"
      "map_of kvs ''sha'' = Some h"
      "map_of kvs ''parents'' = Some (JList ps)"
      "map_of kvs ''stats'' = None" "map_of kvs ''files'' = None"
    by simp_all
  have "api_commit_data strptime (JDict kvs)
           = Inr \<lparr>api_sha = h, api_author_name = an, api_author_email = ae,
                  api_committer_name = cn, api_committer_email = ce,
                  api_datetime = t, api_message = strip m,
                  api_insertions = JInt 0, api_deletions = JInt 0,
                  api_lines_changed = JInt 0, api_files_changed = 0,
                  api_parents = int (length ps)\<rparr>"
    using h by (rule api_commit_data_bare [where strptime = strptime and date = date])
  then show "page_commits_loop strptime (JDict kvs # rest) commits
        = page_commits_loop strptime rest
            (commits @ [\<lparr>api_sha = h, api_author_name = an, api_author_email = ae,
                          api_committer_name = cn, api_committer_email = ce,
                          api_datetime = t, api_message = strip m,
                          api_insertions = JInt 0, api_deletions = JInt 0,
                          api_lines_changed = JInt 0, api_files_changed = 0,
                          api_parents = int (length ps)\<rparr>])"
    by simp
next
  assume "api_commit_data strptime item = Inl e \<and> getitem item ''sha'' = Inr h'"
  then show "page_commits_loop strptime (item # rest) commits
        = page_commits_loop strptime rest commits"
    by simp
next
  assume "\<forall>item\<in>set items. (\<exists>d. api_commit_data strptime item = Inr d)
                          \<or> (\<exists>h. getitem item ''sha'' = Inr h)"
  then show "page_commits_loop strptime items commits
        = Inr (commits @ concat (map (\<lambda>item. case api_commit_data strptime item of
                                               Inl e \<Rightarrow> [] | Inr d \<Rightarrow> [d]) items))"
    by (rule page_commits_loop_result)
qed


theorem extraction_statistics_defaults_witness:
  "(\<exists>rows. get_commit_history example_repo None = Inr rows \<and> length rows = 3
       \<and> sha (rows ! 1) = ''c2'' \<and> insertions (rows ! 1) = 0 \<and> deletions (rows ! 1) = 0
       \<and> lines_changed (rows ! 1) = 0 \<and> files_changed (rows ! 1) = 0
       \<and> sha (rows ! 2) = ''c1'' \<and> insertions (rows ! 2) = 10 \<and> deletions (rows ! 2) = 5
       \<and> lines_changed (rows ! 2) = 15 \<and> files_changed (rows ! 2) = 2)
   \<and> (\<exists>rows. get_commit_history example_repo (Some 2) = Inr rows \<and> length rows = 2
       \<and> sha (rows ! 1) = ''c2'' \<and> insertions (rows ! 1) = 0 \<and> deletions (rows ! 1) = 0
       \<and> lines_changed (rows ! 1) = 0 \<and> files_changed (rows ! 1) = 0)
   \<and> page_commits_loop example_strptime [JDict bare_payload_items] []
       = Inr [\<lparr>api_sha = JStr ''c1'', api_author_name = JStr ''Alice'',
                 api_author_email = JStr ''Alice@example.org'',
                 api_committer_name = JStr ''Alice'',
                 api_committer_email = JStr ''Alice@example.org'',
                 api_datetime = 1672567200000000, api_message = ''Fix parser'',
                 api_insertions = JInt 0, api_deletions = JInt 0,
                 api_lines_changed = JInt 0, api_files_changed = 0,
                 api_parents = 1\<rparr>]
   \<and> page_commits_loop example_strptime [null_stats_payload, JDict bare_payload_items] []
       = Inr [\<lparr>api_sha = JStr ''c1'', api_author_name = JStr ''Alice'',
                 api_author_email = JStr ''Alice@example.org'',
                 api_committer_name = JStr ''Alice'',
                 api_committer_email = JStr ''Alice@example.org'',
                 api_datetime = 1672567200000000, api_message = ''Fix parser'',
                 api_insertions = JInt 0, api_deletions = JInt 0,
                 api_lines_changed = JInt 0, api_files_changed = 0,
                 api_parents = 1\<rparr>]
   \<and> (\<exists>rows. page_commits_loop example_strptime
                  [full_payload, null_stats_payload, JDict bare_payload_items] [] = Inr rows
          \<and> map api_sha rows = [JStr ''c3'', JStr ''c1'']
          \<and> map api_insertions rows = [JInt 10, JInt 0])"
proof -
  let ?P = "(\<lambda>c r. \<exists>st. stats c = Inr st
                 \<and> sha r = hexsha c
                 \<and> insertions r = (case map_of (total st) ''insertions'' of None \<Rightarrow> 0 | Some v \<Rightarrow> v)
                 \<and> deletions r = (case map_of (total st) ''deletions'' of None \<Rightarrow> 0 | Some v \<Rightarrow> v)
                 \<and> lines_changed r = (case map_of (total st) ''lines'' of None \<Rightarrow> 0 | Some v \<Rightarrow> v)
                 \<and> files_changed r = int (length (files st)))"
  have st1: "stats (example_repo ! 1) = Inr \<lparr>total = [], files = []\<rparr>"
    by (simp add: example_repo_def example_commit_def bare_stats_def)
  have st2: "stats (example_repo ! 2)
               = Inr \<lparr>total = [(''insertions'', 10), (''deletions'', 5), (''lines'', 15),
                               (''files'', 2)],
                      files = [''a.py'', ''b.py'']\<rparr>"
    by (simp add: example_repo_def example_commit_def full_stats_def)
  have sha1: "hexsha (example_repo ! 1) = ''c2''" and sha2: "hexsha (example_repo ! 2) = ''c1''"
    by (simp_all add: example_repo_def example_commit_def)
  have len: "length example_repo = 3" by (simp add: example_repo_def)
  have all: "\<forall>c\<in>set example_repo. \<exists>st. stats c = Inr st"
    by (simp add: example_repo_def example_commit_def full_stats_def bare_stats_def)
  have row1: "sha r = ''c2'' \<and> insertions r = 0 \<and> deletions r = 0
                \<and> lines_changed r = 0 \<and> files_changed r = 0"
    if "?P (example_repo ! 1) r" for r :: commit_row
  proof -
    from that obtain st where a: "stats (example_repo ! 1) = Inr st"
      and b: "sha r = hexsha (example_repo ! 1)"
        "insertions r = (case map_of (total st) ''insertions'' of None \<Rightarrow> 0 | Some v \<Rightarrow> v)"
        "deletions r = (case map_of (total st) ''deletions'' of None \<Rightarrow> 0 | Some v \<Rightarrow> v)"
        "lines_changed r = (case map_of (total st) ''lines'' of None \<Rightarrow> 0 | Some v \<Rightarrow> v)"
        "files_changed r = int (length (files st))"
      by blast
    from a have st: "st = \<lparr>total = [], files = []\<rparr>" by (simp only: st1 sum.inject)
    from b show ?thesis by (simp add: st sha1 del: One_nat_def)
  qed
  have row2: "sha r = ''c1'' \<and> insertions r = 10 \<and> deletions r = 5
                \<and> lines_changed r = 15 \<and> files_changed r = 2"
    if "?P (example_repo ! 2) r" for r :: commit_row
  proof -
    from that obtain st where a: "stats (example_repo ! 2) = Inr st"
      and b: "sha r = hexsha (example_repo ! 2)"
        "insertions r = (case map_of (total st) ''insertions'' of None \<Rightarrow> 0 | Some v \<Rightarrow> v)"
        "deletions r = (case map_of (total st) ''deletions'' of None \<Rightarrow> 0 | Some v \<Rightarrow> v)"
        "lines_changed r = (case map_of (total st) ''lines'' of None \<Rightarrow> 0 | Some v \<Rightarrow> v)"
        "files_changed r = int (length (files st))"
      by blast
    from a have st: "st = \<lparr>total = [(''insertions'', 10), (''deletions'', 5), (''lines'', 15),
                               (''files'', 2)],
                      files = [''a.py'', ''b.py'']\<rparr>" by (simp only: st2 sum.inject)
    from b show ?thesis by (simp add: st sha2)
  qed
  note tA = conjunct1 [OF extraction_statistics_defaults
    [where repo = example_repo and limit = None]]
  have hA: "(\<forall>c\<in>set (case None of None \<Rightarrow> example_repo | Some k \<Rightarrow> take (nat k) example_repo).
               \<exists>st. stats c = Inr st)
            \<and> ((None :: int option) = None \<or> (\<exists>k. (None :: int option) = Some k \<and> 0 < k))"
    using all by simp
  from mp [OF tA hA] obtain rows where
    g: "get_commit_history example_repo None = Inr rows"
    and l0: "list_all2 ?P (case None of None \<Rightarrow> example_repo
                           | Some k \<Rightarrow> take (nat k) example_repo) rows"
    by blast
  from l0 have l: "list_all2 ?P example_repo rows" by (simp only: option.case)
  from list_all2_lengthD [OF l] have n: "length rows = 3" by (simp only: len)
  have i1: "1 < length example_repo" and i2: "2 < length example_repo"
    by (simp_all add: len)
  note r1 = row1 [OF list_all2_nthD [OF l i1]]
  note r2 = row2 [OF list_all2_nthD [OF l i2]]
  from g n r1 r2 have c1: "\<exists>rows. get_commit_history example_repo None = Inr rows \<and> length rows = 3
       \<and> sha (rows ! 1) = ''c2'' \<and> insertions (rows ! 1) = 0 \<and> deletions (rows ! 1) = 0
       \<and> lines_changed (rows ! 1) = 0 \<and> files_changed (rows ! 1) = 0
       \<and> sha (rows ! 2) = ''c1'' \<and> insertions (rows ! 2) = 10 \<and> deletions (rows ! 2) = 5
       \<and> lines_changed (rows ! 2) = 15 \<and> files_changed (rows ! 2) = 2"
    by blast
  note tB = conjunct1 [OF extraction_statistics_defaults
    [where repo = example_repo and limit = "Some 2"]]
  have hB: "(\<forall>c\<in>set (case Some 2 of None \<Rightarrow> example_repo | Some k \<Rightarrow> take (nat k) example_repo).
               \<exists>st. stats c = Inr st)
            \<and> (Some (2::int) = None \<or> (\<exists>k. Some (2::int) = Some k \<and> 0 < k))"
    using all by (auto dest: in_set_takeD)
  from mp [OF tB hB] obtain rows' where
    g': "get_commit_history example_repo (Some 2) = Inr rows'"
    and l0': "list_all2 ?P (case Some 2 of None \<Rightarrow> example_repo
                            | Some k \<Rightarrow> take (nat k) example_repo) rows'"
    by blast
  from l0' have l': "list_all2 ?P (take (nat 2) example_repo) rows'"
    by (simp only: option.case)
  have len': "length (take (nat 2) example_repo) = 2" by (simp add: len)
  from list_all2_lengthD [OF l'] have n': "length rows' = 2" by (simp only: len')
  have i1': "1 < length (take (nat 2) example_repo)" by (simp add: len)
  have e1: "take (nat 2) example_repo ! 1 = example_repo ! 1" by (rule nth_take) (simp add: len)
  from list_all2_nthD [OF l' i1'] have "?P (example_repo ! 1) (rows' ! 1)"
    by (simp only: e1)
  note r1' = row1 [OF this]
  from g' n' r1' have c2: "\<exists>rows. get_commit_history example_repo (Some 2) = Inr rows
       \<and> length rows = 2
       \<and> sha (rows ! 1) = ''c2'' \<and> insertions (rows ! 1) = 0 \<and> deletions (rows ! 1) = 0
       \<and> lines_changed (rows ! 1) = 0 \<and> files_changed (rows ! 1) = 0"
    by blast
  have strip_msg: "strip ''Fix parser '' = ''Fix parser''"
    by code_simp
  have shape: "map_of bare_payload_items ''commit''
        = Some (JDict [(''author'', person ''Alice'' ''2023-01-01T10:00:00Z''),
                       (''committer'', person ''Alice'' ''2023-01-01T10:00:00Z''),
                       (''message'', JStr ''Fix parser '')])
      \<and> map_of [(''author'', person ''Alice'' ''2023-01-01T10:00:00Z''),
                (''committer'', person ''Alice'' ''2023-01-01T10:00:00Z''),
                (''message'', JStr ''Fix parser '')] ''author''
        = Some (JDict [(''name'', JStr ''Alice''), (''email'', JStr ''Alice@example.org''),
                       (''date'', JStr ''2023-01-01T10:00:00Z'')])
      \<and> map_of [(''author'', person ''Alice'' ''2023-01-01T10:00:00Z''),
                (''committer'', person ''Alice'' ''2023-01-01T10:00:00Z''),
                (''message'', JStr ''Fix parser '')] ''committer''
        = Some (JDict [(''name'', JStr ''Alice''), (''email'', JStr ''Alice@example.org''),
                       (''date'', JStr ''2023-01-01T10:00:00Z'')])
      \<and> map_of [(''author'', person ''Alice'' ''2023-01-01T10:00:00Z''),
                (''committer'', person ''Alice'' ''2023-01-01T10:00:00Z''),
                (''message'', JStr ''Fix parser '')] ''message''
        = Some (JStr ''Fix parser '')
      \<and> map_of [(''name'', JStr ''Alice''), (''email'', JStr ''Alice@example.org''),
                (''date'', JStr ''2023-01-01T10:00:00Z'')] ''name'' = Some (JStr ''Alice'')
      \<and> map_of [(''name'', JStr ''Alice''), (''email'', JStr ''Alice@example.org''),
                (''date'', JStr ''2023-01-01T10:00:00Z'')] ''email''
        = Some (JStr ''Alice@example.org'')
      \<and> map_of [(''name'', JStr ''Alice''), (''email'', JStr ''Alice@example.org''),
                (''date'', JStr ''2023-01-01T10:00:00Z'')] ''name'' = Some (JStr ''Alice'')
      \<and> map_of [(''name'', JStr ''Alice''), (''email'', JStr ''Alice@example.org''),
                (''date'', JStr ''2023-01-01T10:00:00Z'')] ''email''
        = Some (JStr ''Alice@example.org'')
      \<and> map_of [(''name'', JStr ''Alice''), (''email'', JStr ''Alice@example.org''),
                (''date'', JStr ''2023-01-01T10:00:00Z'')] ''date''
        = Some (JStr ''2023-01-01T10:00:00Z'')
      \<and> example_strptime ''2023-01-01T10:00:00Z'' = Inr 1672567200000000
      \<and> map_of bare_payload_items ''sha'' = Some (JStr ''c1'')
      \<and> map_of bare_payload_items ''parents'' = Some (JList [JDict [(''sha'', JStr ''p'')]])
      \<and> map_of bare_payload_items ''stats'' = None
      \<and> map_of bare_payload_items ''files'' = None"
    by (simp add: bare_payload_items_def person_def example_strptime_def)
  note tC = mp [OF conjunct1 [OF conjunct2 [OF extraction_statistics_defaults
    [where strptime = example_strptime and kvs = bare_payload_items
       and rest = "[]" and commits = "[]"]]] shape]
  from tC have c3: "page_commits_loop example_strptime [JDict bare_payload_items] []
       = Inr [\<lparr>api_sha = JStr ''c1'', api_author_name = JStr ''Alice'',
                 api_author_email = JStr ''Alice@example.org'',
                 api_committer_name = JStr ''Alice'',
                 api_committer_email = JStr ''Alice@example.org'',
                 api_datetime = 1672567200000000, api_message = ''Fix parser'',
                 api_insertions = JInt 0, api_deletions = JInt 0,
                 api_lines_changed = JInt 0, api_files_changed = 0,
                 api_parents = 1\<rparr>]"
    by (simp add: strip_msg)
  have fail: "api_commit_data example_strptime null_stats_payload = Inl AttributeError"
    by (simp add: null_stats_payload_def payload_def person_def api_commit_data_def getitem3_def
        ebind_def example_strptime_def replace_tzinfo_None_def)
  have hsha: "getitem null_stats_payload ''sha'' = Inr (JStr ''c2'')"
    by (simp add: null_stats_payload_def payload_def)
  note tD = mp [OF conjunct1 [OF conjunct2 [OF conjunct2 [OF extraction_statistics_defaults
    [where strptime = example_strptime and item = null_stats_payload
       and rest = "[JDict bare_payload_items]" and commits = "[]"]]]] conjI [OF fail hsha]]
  from tD c3 have c4: "page_commits_loop example_strptime
        [null_stats_payload, JDict bare_payload_items] []
       = Inr [\<lparr>api_sha = JStr ''c1'', api_author_name = JStr ''Alice'',
                 api_author_email = JStr ''Alice@example.org'',
                 api_committer_name = JStr ''Alice'',
                 api_committer_email = JStr ''Alice@example.org'',
                 api_datetime = 1672567200000000, api_message = ''Fix parser'',
                 api_insertions = JInt 0, api_deletions = JInt 0,
                 api_lines_changed = JInt 0, api_files_changed = 0,
                 api_parents = 1\<rparr>]"
    by (simp only:)
  have full: "api_commit_data example_strptime full_payload
       = Inr \<lparr>api_sha = JStr ''c3'', api_author_name = JStr ''Alice'',
               api_author_email = JStr ''Alice@example.org'',
               api_committer_name = JStr ''Alice'',
               api_committer_email = JStr ''Alice@example.org'',
               api_datetime = 1672737300000000, api_message = ''Fix parser'',
               api_insertions = JInt 10, api_deletions = JInt 5,
               api_lines_changed = JInt 15, api_files_changed = 1,
               api_parents = 1\<rparr>"
    by (simp add: full_payload_def payload_def person_def api_commit_data_def getitem3_def
        ebind_def example_strptime_def replace_tzinfo_None_def strip_msg)
  have bare: "api_commit_data example_strptime (JDict bare_payload_items)
       = Inr \<lparr>api_sha = JStr ''c1'', api_author_name = JStr ''Alice'',
                 api_author_email = JStr ''Alice@example.org'',
                 api_committer_name = JStr ''Alice'',
                 api_committer_email = JStr ''Alice@example.org'',
                 api_datetime = 1672567200000000, api_message = ''Fix parser'',
                 api_insertions = JInt 0, api_deletions = JInt 0,
                 api_lines_changed = JInt 0, api_files_changed = 0,
                 api_parents = 1\<rparr>"
    by (simp add: bare_payload_items_def person_def api_commit_data_def getitem3_def
        ebind_def example_strptime_def replace_tzinfo_None_def strip_msg)
  have hE: "\<forall>item\<in>set [full_payload, null_stats_payload, JDict bare_payload_items].
              (\<exists>d. api_commit_data example_strptime item = Inr d)
              \<or> (\<exists>h. getitem item ''sha'' = Inr h)"
    using full bare hsha by simp
  note tE = mp [OF conjunct2 [OF conjunct2 [OF conjunct2 [OF extraction_statistics_defaults
    [where strptime = example_strptime
       and items = "[full_payload, null_stats_payload, JDict bare_payload_items]"
       and commits = "[]"]]]] hE]
  from tE have "page_commits_loop example_strptime
                  [full_payload, null_stats_payload, JDict bare_payload_items] []
      = Inr [\<lparr>api_sha = JStr ''c3'', api_author_name = JStr ''Alice'',
               api_author_email = JStr ''Alice@example.org'',
               api_committer_name = JStr ''Alice'',
               api_committer_email = JStr ''Alice@example.org'',
               api_datetime = 1672737300000000, api_message = ''Fix parser'',
               api_insertions = JInt 10, api_deletions = JInt 5,
               api_lines_changed = JInt 15, api_files_changed = 1,
               api_parents = 1\<rparr>, \<lparr>api_sha = JStr ''c1'', api_author_name = JStr ''Alice'',
                 api_author_email = JStr ''Alice@example.org'',
                 api_committer_name = JStr ''Alice'',
                 api_committer_email = JStr ''Alice@example.org'',
                 api_datetime = 1672567200000000, api_message = ''Fix parser'',
                 api_insertions = JInt 0, api_deletions = JInt 0,
                 api_lines_changed = JInt 0, api_files_changed = 0,
                 api_parents = 1\<rparr>]"
    by (simp add: full bare fail)
  then have c5: "\<exists>rows. page_commits_loop example_strptime
                  [full_payload, null_stats_payload, JDict bare_payload_items] [] = Inr rows
          \<and> map api_sha rows = [JStr ''c3'', JStr ''c1'']
          \<and> map api_insertions rows = [JInt 10, JInt 0]"
    by simp
  from c1 c2 c3 c4 c5 show ?thesis by (intro conjI)
qed

text \<open>
  The claim as stated promises a zeroed record for a commit whose statistics cannot be
  computed. The code emits none. In \<open>get_commit_history\<close> the exception of the second
  of three commits ends the whole call, and nothing is returned. In the API path the
  payload whose \<open>stats\<close> member is \<open>null\<close> makes \<open>.get\<close> raise, and the commit is
  missing from the result.
\<close>

theorem extraction_statistics_failure_counterexample:
  "stats (broken_repo ! 1) = Inl GitCommandError
   \<and> get_commit_history broken_repo None = Inl GitCommandError
   \<and> api_commit_data example_strptime null_stats_payload = Inl AttributeError
   \<and> (\<exists>api_rows. fetch_commits_from_github_api example_strptime example_requests_get 100 5
                     = Inr api_rows
          \<and> map api_sha api_rows = [JStr ''c3'', JStr ''c1''])"
proof (intro conjI)
  show "stats (broken_repo ! 1) = Inl GitCommandError"
    by (simp add: broken_repo_def example_commit_def)
  show "get_commit_history broken_repo None = Inl GitCommandError"
    by (simp add: get_commit_history_unlimited broken_repo_def example_commit_def full_stats_def
        commit_data_def)
  show "api_commit_data example_strptime null_stats_payload = Inl AttributeError"
    by (simp add: null_stats_payload_def payload_def person_def api_commit_data_def getitem3_def
        ebind_def example_strptime_def replace_tzinfo_None_def)
  from example_fetch
  show "\<exists>api_rows. fetch_commits_from_github_api example_strptime example_requests_get 100 5
                     = Inr api_rows
          \<and> map api_sha api_rows = [JStr ''c3'', JStr ''c1'']"
    by (elim exE conjE) (intro exI conjI)
qed

end
